theory Spec2Isabelle
  imports Main "HOL-Library.Word" "HOL-Library.Sublist"
begin

unbundle bit_operations_syntax

section \<open>Faults\<close>

text \<open>
  The C++ sources abort on a failed \<^verbatim>\<open>assert\<close>, call \<^verbatim>\<open>exit\<close> on a failed
  semaphore operation, and have undefined behaviour when a vector or a raw buffer is
  accessed out of range.  Each of these is a value of \<open>fault\<close>; a function that can hit
  one returns \<open>fault + 'a\<close> with \<open>Inl\<close> for the fault.
\<close>

datatype fault =
  OutOfBounds | AssertionFailed | BufferOverrun | NeverReturns | DivisionByZero | ExitFailure

section \<open>Buffer (types/buffer.cpp)\<close>

text \<open>
  A buffer has a width, a height and a vector of samples.  The samples are floats in the
  source; the model is generic in the sample type and needs only its addition.
\<close>

record 'a Buffer =
  buf_width :: int
  buf_height :: int
  buf_data :: "'a list"

text \<open>
  \<^verbatim>\<open>for (size_t i = 0; i < other._data.size(); i++) _data[i] += other._data[i];\<close>
  The loop bound is the size of the other buffer; \<^verbatim>\<open>_data[i]\<close> on this buffer is
  an unchecked \<^verbatim>\<open>operator[]\<close>, so an index at or beyond this buffer's size is a fault.
\<close>

function Merge_loop :: "nat \<Rightarrow> 'a::plus list \<Rightarrow> 'a list \<Rightarrow> fault + 'a list" where
  "Merge_loop i d other =
     (if i < length other
      then (if i < length d
            then Merge_loop (Suc i) (d[i := d ! i + other ! i]) other
            else Inl OutOfBounds)
      else Inr d)"
  by pat_completeness auto
termination
  by (relation "measure (\<lambda>(i, d, other). length other - i)") auto

declare Merge_loop.simps [simp del]

definition Merge :: "'a::plus Buffer \<Rightarrow> 'a Buffer \<Rightarrow> fault + 'a Buffer" where
  "Merge b other =
     (case Merge_loop 0 (buf_data b) (buf_data other) of
        Inl e \<Rightarrow> Inl e
      | Inr d \<Rightarrow> Inr (b\<lparr>buf_data := d\<rparr>))"

section \<open>Library (utils/library.cpp)\<close>

text \<open>
  The declarations of the asset classes are not among the sources.  Shaders and textures
  are opaque to the library; of a material only the emissive flag is read, and of a mesh
  only its id and the id of its material.
\<close>

typedecl Shader
typedecl Texture

record Material =
  emissive :: bool

record Mesh =
  mesh_id :: "32 word"
  material :: "32 word"

text \<open>\<^verbatim>\<open>std::vector::resize(n, v)\<close>: truncate to \<open>n\<close> elements or pad with \<open>v\<close>.\<close>

definition resize :: "nat \<Rightarrow> 'a \<Rightarrow> 'a list \<Rightarrow> 'a list" where
  "resize n v xs = take n xs @ replicate (n - length xs) v"

text \<open>
  The body shared by \<^verbatim>\<open>StoreShader\<close>, \<^verbatim>\<open>StoreTexture\<close>, \<^verbatim>\<open>StoreMaterial\<close>,
  \<^verbatim>\<open>StoreMesh\<close> and \<^verbatim>\<open>StoreNetNode\<close> of the full library:
  \<^verbatim>\<open>if (id < v.size()) { if (v[id] != nullptr) delete v[id]; } else { v.resize(id + 1, nullptr); } v[id] = x;\<close>
  A null pointer is \<open>None\<close>; \<^verbatim>\<open>delete\<close> has no effect on the table.  The id is a
  \<^verbatim>\<open>uint32_t\<close>, so \<^verbatim>\<open>id + 1\<close> wraps to 0 at the largest id, and the assignment that
  follows is then out of range.
\<close>

definition store_slot :: "'a option list \<Rightarrow> 32 word \<Rightarrow> 'a option \<Rightarrow> fault + 'a option list" where
  "store_slot v ident x =
     (let v' = (if unat ident < length v then v else resize (unat (ident + 1)) None v)
      in if unat ident < length v' then Inr (v'[unat ident := x]) else Inl OutOfBounds)"

record 'nd Library =
  shaders :: "Shader option list"
  textures :: "Texture option list"
  materials :: "Material option list"
  meshes :: "Mesh option list"
  nodes :: "'nd option list"
  material_name_index :: "string \<rightharpoonup> 32 word"
  spatial_index :: "32 word list"
  emissive_index :: "32 word list"
  chunk_size :: "64 word"

text \<open>The constructor: id 0 of every table is reserved and holds a null pointer.\<close>

definition Library_new :: "'nd Library" where
  "Library_new =
     \<lparr>shaders = [None], textures = [None], materials = [None], meshes = [None],
      nodes = [None], material_name_index = Map.empty, spatial_index = [],
      emissive_index = [], chunk_size = 0\<rparr>"

definition StoreShader :: "'nd Library \<Rightarrow> 32 word \<Rightarrow> Shader option \<Rightarrow> fault + 'nd Library" where
  "StoreShader lib ident shader =
     (case store_slot (shaders lib) ident shader of
        Inl e \<Rightarrow> Inl e
      | Inr v \<Rightarrow> Inr (lib\<lparr>shaders := v\<rparr>))"

definition StoreTexture :: "'nd Library \<Rightarrow> 32 word \<Rightarrow> Texture option \<Rightarrow> fault + 'nd Library" where
  "StoreTexture lib ident texture =
     (case store_slot (textures lib) ident texture of
        Inl e \<Rightarrow> Inl e
      | Inr v \<Rightarrow> Inr (lib\<lparr>textures := v\<rparr>))"

definition StoreMaterial ::
  "'nd Library \<Rightarrow> 32 word \<Rightarrow> Material option \<Rightarrow> string \<Rightarrow> fault + 'nd Library" where
  "StoreMaterial lib ident mat name =
     (case store_slot (materials lib) ident mat of
        Inl e \<Rightarrow> Inl e
      | Inr v \<Rightarrow>
          Inr (lib\<lparr>materials := v, material_name_index := (material_name_index lib)(name \<mapsto> ident)\<rparr>))"

text \<open>
  \<^verbatim>\<open>StoreMesh\<close> stores the mesh and then, for a mesh that is not null, reads
  \<^verbatim>\<open>_materials[mesh->material]\<close> (an unchecked index), asserts that the material is not
  null, and pushes the ident onto the emissive index when the material is emissive.
\<close>

definition StoreMesh :: "'nd Library \<Rightarrow> 32 word \<Rightarrow> Mesh option \<Rightarrow> fault + 'nd Library" where
  "StoreMesh lib ident mesh =
     (case store_slot (meshes lib) ident mesh of
        Inl e \<Rightarrow> Inl e
      | Inr v \<Rightarrow>
          (case mesh of
             None \<Rightarrow> Inr (lib\<lparr>meshes := v\<rparr>)
           | Some m \<Rightarrow>
               if unat (material m) < length (materials lib)
               then (case materials lib ! unat (material m) of
                       None \<Rightarrow> Inl AssertionFailed
                     | Some mat \<Rightarrow>
                         Inr (lib\<lparr>meshes := v,
                                  emissive_index :=
                                    (if emissive mat then emissive_index lib @ [ident]
                                     else emissive_index lib)\<rparr>))
               else Inl OutOfBounds))"

definition StoreNetNode :: "'nd Library \<Rightarrow> 32 word \<Rightarrow> 'nd option \<Rightarrow> fault + 'nd Library" where
  "StoreNetNode lib ident node =
     (case store_slot (nodes lib) ident node of
        Inl e \<Rightarrow> Inl e
      | Inr v \<Rightarrow> Inr (lib\<lparr>nodes := v\<rparr>))"


text \<open>
  \<^verbatim>\<open>BuildSpatialIndex\<close>.  The loop counter is a \<^verbatim>\<open>uint32_t\<close> compared with a
  \<^verbatim>\<open>size_t\<close>: on a table of more than \<open>2 ^ 32\<close> slots it wraps and the loop never
  ends.  The chunk size is computed in 64-bit unsigned arithmetic; a table with the
  reserved slot only divides by zero.  \<^verbatim>\<open>SPACECODE_MAX\<close> is a macro that is not
  among the sources, so it is a parameter here.
\<close>

definition BuildSpatialIndex :: "64 word \<Rightarrow> 'nd Library \<Rightarrow> fault + 'nd Library" where
  "BuildSpatialIndex spacecode_max lib =
     (if 2 ^ 32 < length (nodes lib) then Inl NeverReturns
      else if (of_nat (length (nodes lib)) - 1 :: 64 word) = 0 then Inl DivisionByZero
      else Inr (lib\<lparr>spatial_index := map of_nat [1..<length (nodes lib)],
                    chunk_size :=
                      ((spacecode_max + 1) div (of_nat (length (nodes lib)) - 1)) + 1\<rparr>))"

text \<open>
  Modelled from the spec: \<^verbatim>\<open>SPACECODE_MAX\<close> (its definition is not among the sources)
  is the largest 63-bit Morton code.
\<close>

definition SPACECODE_MAX :: "64 word" where
  "SPACECODE_MAX = 2 ^ 63 - 1"

text \<open>
  The registration loop of \<^verbatim>\<open>client::Init\<close>: worker \<open>i\<close> of the configuration
  (counted from 0) is stored under id \<open>i + 1\<close>.
\<close>

fun register_workers :: "nat \<Rightarrow> 'nd list \<Rightarrow> 'nd Library \<Rightarrow> fault + 'nd Library" where
  "register_workers i [] lib = Inr lib"
| "register_workers i (w # ws) lib =
     (case StoreNetNode lib (of_nat (i + 1)) (Some w) of
        Inl e \<Rightarrow> Inl e
      | Inr lib' \<Rightarrow> register_workers (Suc i) ws lib')"

text \<open>The library's mutators, as one type of operation, and a run of them.\<close>

datatype 'nd lib_op =
    OpStoreShader "32 word" "Shader option"
  | OpStoreTexture "32 word" "Texture option"
  | OpStoreMaterial "32 word" "Material option" string
  | OpStoreMesh "32 word" "Mesh option"
  | OpStoreNetNode "32 word" "'nd option"

fun apply_lib_op :: "'nd lib_op \<Rightarrow> 'nd Library \<Rightarrow> fault + 'nd Library" where
  "apply_lib_op (OpStoreShader i x) lib = StoreShader lib i x"
| "apply_lib_op (OpStoreTexture i x) lib = StoreTexture lib i x"
| "apply_lib_op (OpStoreMaterial i x name) lib = StoreMaterial lib i x name"
| "apply_lib_op (OpStoreMesh i x) lib = StoreMesh lib i x"
| "apply_lib_op (OpStoreNetNode i x) lib = StoreNetNode lib i x"

fun run_lib_ops :: "'nd lib_op list \<Rightarrow> 'nd Library \<Rightarrow> fault + 'nd Library" where
  "run_lib_ops [] lib = Inr lib"
| "run_lib_ops (op # ops) lib =
     (case apply_lib_op op lib of
        Inl e \<Rightarrow> Inl e
      | Inr lib' \<Rightarrow> run_lib_ops ops lib')"

subsection \<open>The first library implementation (insert-based stores)\<close>

text \<open>
  The body shared by the four stores of the first implementation:
  \<^verbatim>\<open>if (id < v.size()) { if (v[id] != nullptr) { delete v[id]; v[id] = nullptr; } } else { v.resize(id, nullptr); } v.insert(v.begin() + id, x);\<close>
  Here the id is a \<^verbatim>\<open>uint64_t\<close>.  After the conditional the id is at most the size, so
  the insert position is valid.
\<close>

definition insert_at :: "nat \<Rightarrow> 'a \<Rightarrow> 'a list \<Rightarrow> 'a list" where
  "insert_at n x xs = take n xs @ x # drop n xs"

definition store_slot_insert :: "'a option list \<Rightarrow> 64 word \<Rightarrow> 'a option \<Rightarrow> 'a option list" where
  "store_slot_insert v ident x =
     (let v' = (if unat ident < length v then v[unat ident := None]
                else resize (unat ident) None v)
      in insert_at (unat ident) x v')"

record Library0 =
  shaders0 :: "Shader option list"
  textures0 :: "Texture option list"
  materials0 :: "Material option list"
  meshes0 :: "Mesh option list"
  material_name_index0 :: "string \<rightharpoonup> 64 word"



definition StoreTexture0 :: "Library0 \<Rightarrow> 64 word \<Rightarrow> Texture option \<Rightarrow> Library0" where
  "StoreTexture0 lib ident texture =
     lib\<lparr>textures0 := store_slot_insert (textures0 lib) ident texture\<rparr>"

definition StoreMaterial0 :: "Library0 \<Rightarrow> 64 word \<Rightarrow> Material option \<Rightarrow> string \<Rightarrow> Library0" where
  "StoreMaterial0 lib ident mat name =
     lib\<lparr>materials0 := store_slot_insert (materials0 lib) ident mat,
         material_name_index0 := (material_name_index0 lib)(name \<mapsto> ident)\<rparr>"

definition StoreMesh0 :: "Library0 \<Rightarrow> 64 word \<Rightarrow> Mesh option \<Rightarrow> Library0" where
  "StoreMesh0 lib ident mesh = lib\<lparr>meshes0 := store_slot_insert (meshes0 lib) ident mesh\<rparr>"





text \<open>
  Registration of the configured workers in a fresh library followed by
  \<^verbatim>\<open>BuildSpatialIndex\<close>, as \<^verbatim>\<open>client::Init\<close> and \<^verbatim>\<open>client::StartSync\<close> do.
\<close>

definition spatial_index_for :: "64 word \<Rightarrow> 'nd list \<Rightarrow> fault + 'nd Library" where
  "spatial_index_for spacecode_max ws =
     (case register_workers 0 ws Library_new of
        Inl e \<Rightarrow> Inl e
      | Inr lib \<Rightarrow> BuildSpatialIndex spacecode_max lib)"

text \<open>The ceiling of a quotient of naturals, as the specification writes the chunk size.\<close>

definition ceil_div :: "nat \<Rightarrow> nat \<Rightarrow> nat" where
  "ceil_div a b = (a + b - 1) div b"

section \<open>Messages (types/message.hpp)\<close>

text \<open>
  A message has a kind and a size, both \<^verbatim>\<open>uint32_t\<close>, and a pointer to a body of
  \<open>size\<close> bytes; the body is the list of its bytes here, and a null body is the empty
  list.  The kinds are the enumerators of \<^verbatim>\<open>Message::Kind\<close>.
\<close>

type_synonym byte = "8 word"

record Message =
  msg_kind :: "32 word"
  msg_size :: "32 word"
  msg_body :: "byte list"

definition Kind_NONE :: "32 word" where "Kind_NONE = 0"
definition Kind_OK :: "32 word" where "Kind_OK = 1"
definition Kind_ERROR :: "32 word" where "Kind_ERROR = 2"
definition Kind_INIT :: "32 word" where "Kind_INIT = 100"
definition Kind_SYNC_CONFIG :: "32 word" where "Kind_SYNC_CONFIG = 200"
definition Kind_SYNC_SHADER :: "32 word" where "Kind_SYNC_SHADER = 201"
definition Kind_SYNC_TEXTURE :: "32 word" where "Kind_SYNC_TEXTURE = 202"
definition Kind_SYNC_MATERIAL :: "32 word" where "Kind_SYNC_MATERIAL = 203"
definition Kind_SYNC_MESH :: "32 word" where "Kind_SYNC_MESH = 204"
definition Kind_SYNC_CAMERA :: "32 word" where "Kind_SYNC_CAMERA = 205"
definition Kind_SYNC_EMISSIVE :: "32 word" where "Kind_SYNC_EMISSIVE = 206"
definition Kind_BUILD_BVH :: "32 word" where "Kind_BUILD_BVH = 250"
definition Kind_SYNC_WBVH :: "32 word" where "Kind_SYNC_WBVH = 260"
definition Kind_SYNC_IMAGE :: "32 word" where "Kind_SYNC_IMAGE = 290"
definition Kind_RENDER_START :: "32 word" where "Kind_RENDER_START = 300"
definition Kind_RENDER_STOP :: "32 word" where "Kind_RENDER_STOP = 301"
definition Kind_RENDER_STATS :: "32 word" where "Kind_RENDER_STATS = 302"
definition Kind_RENDER_PAUSE :: "32 word" where "Kind_RENDER_PAUSE = 303"
definition Kind_RENDER_RESUME :: "32 word" where "Kind_RENDER_RESUME = 304"
definition Kind_RAY :: "32 word" where "Kind_RAY = 400"

lemmas Kind_defs =
  Kind_NONE_def Kind_OK_def Kind_ERROR_def Kind_INIT_def Kind_SYNC_CONFIG_def
  Kind_SYNC_SHADER_def Kind_SYNC_TEXTURE_def Kind_SYNC_MATERIAL_def Kind_SYNC_MESH_def
  Kind_SYNC_CAMERA_def Kind_SYNC_EMISSIVE_def Kind_BUILD_BVH_def Kind_SYNC_WBVH_def
  Kind_SYNC_IMAGE_def Kind_RENDER_START_def Kind_RENDER_STOP_def Kind_RENDER_STATS_def
  Kind_RENDER_PAUSE_def Kind_RENDER_RESUME_def Kind_RAY_def

text \<open>
  Modelled from the spec: the constructor \<^verbatim>\<open>Message(Kind kind)\<close> is declared in
  message.hpp and defined in a file that is not among the sources; the messages built
  with it and sent as they are (BUILD_BVH, RENDER_STOP, RENDER_PAUSE, RENDER_RESUME) have
  an empty body.
\<close>

definition Message_of_kind :: "32 word \<Rightarrow> Message" where
  "Message_of_kind k = \<lparr>msg_kind = k, msg_size = 0, msg_body = []\<rparr>"

text \<open>
  The bytes of a \<^verbatim>\<open>uint32_t\<close> in memory.  The sources copy host-order integers with
  \<^verbatim>\<open>memcpy\<close>; the model fixes the little-endian order, and \<open>bytes_u32\<close> reads four
  bytes back.
\<close>

definition u32_bytes :: "32 word \<Rightarrow> byte list" where
  "u32_bytes w = [ucast w, ucast (drop_bit 8 w), ucast (drop_bit 16 w), ucast (drop_bit 24 w)]"

definition bytes_u32 :: "byte list \<Rightarrow> 32 word" where
  "bytes_u32 bs =
     ucast (bs ! 0) OR push_bit 8 (ucast (bs ! 1)) OR push_bit 16 (ucast (bs ! 2))
       OR push_bit 24 (ucast (bs ! 3))"

section \<open>The coordinator (engine.cpp)\<close>

subsection \<open>State\<close>

text \<open>
  The states of a connection.  The enumeration \<^verbatim>\<open>NetNode::State\<close> is declared in
  net_node.hpp, which is not among the sources; these are the states engine.cpp names,
  with CONNECTED and DONE from the specification's lifecycle.
\<close>

datatype State =
    NONE | CONNECTED | INITIALIZING | CONFIGURING | SYNCING_ASSETS | SYNCING_CAMERA
  | SYNCING_EMISSIVE | BUILDING_BVH | SYNCING_WBVH | READY | RENDERING | PAUSED
  | SYNCING_IMAGES | DONE

text \<open>
  What the coordinator has handed to a connection for sending, in order: a message given
  to \<^verbatim>\<open>NetNode::Send\<close>, or a call of one of the composite senders, whose code is not
  among the sources.  The byte level of \<^verbatim>\<open>Send\<close> is the subject of the framing
  section.
\<close>

datatype sent =
    Sent Message | SentConfig | SentCamera | SentLightList | SentMesh "32 word" | SentWBVH

text \<open>
  Modelled from the spec: a statistics frame carries the tuple produced, killed, queued,
  progress, and a connection keeps a rolling window of them (the newest last).
\<close>

record 'p RenderStats =
  rays_produced :: "64 word"
  rays_killed :: "64 word"
  rays_queued :: "64 word"
  stat_progress :: 'p

text \<open>
  A connection as the coordinator sees it.  Progress is a \<^verbatim>\<open>float\<close> in the source;
  the model is generic in its type \<open>'p\<close>, of which it uses the order, the addition and
  zero, and so leaves out the not-a-number value.
\<close>

record 'p NetNode =
  state :: State
  me :: "32 word"
  message :: Message
  outbox :: "sent list"
  window :: "'p RenderStats list"
  socket_closed :: bool

definition Send :: "Message \<Rightarrow> 'p NetNode \<Rightarrow> 'p NetNode" where
  "Send msg node = node\<lparr>outbox := outbox node @ [Sent msg]\<rparr>"

definition SendConfig :: "'p NetNode \<Rightarrow> 'p NetNode" where
  "SendConfig node = node\<lparr>outbox := outbox node @ [SentConfig]\<rparr>"

definition SendCamera :: "'p NetNode \<Rightarrow> 'p NetNode" where
  "SendCamera node = node\<lparr>outbox := outbox node @ [SentCamera]\<rparr>"

definition SendLightList :: "'p NetNode \<Rightarrow> 'p NetNode" where
  "SendLightList node = node\<lparr>outbox := outbox node @ [SentLightList]\<rparr>"

definition SendMesh :: "32 word \<Rightarrow> 'p NetNode \<Rightarrow> 'p NetNode" where
  "SendMesh mesh node = node\<lparr>outbox := outbox node @ [SentMesh mesh]\<rparr>"

definition SendWBVH :: "'p NetNode \<Rightarrow> 'p NetNode" where
  "SendWBVH node = node\<lparr>outbox := outbox node @ [SentWBVH]\<rparr>"

text \<open>
  Modelled from the spec: \<^verbatim>\<open>ReceiveRenderStats\<close>, \<^verbatim>\<open>Progress\<close> and
  \<^verbatim>\<open>IsInteresting\<close> are methods of \<^verbatim>\<open>NetNode\<close> whose code is not among the sources.
  \<open>ReceiveRenderStats\<close> parses the statistics frame and appends it to the window (the
  parser is a parameter); \<open>Progress\<close> is the worker's self-reported progress, zero before
  the first report; a worker is interesting when any of produced, killed or queued is
  not zero in one of its last \<open>k\<close> windows.
\<close>

definition ReceiveRenderStats ::
  "(byte list \<Rightarrow> 'p RenderStats) \<Rightarrow> 'p NetNode \<Rightarrow> 'p NetNode" where
  "ReceiveRenderStats parse node =
     node\<lparr>window := window node @ [parse (msg_body (message node))]\<rparr>"

definition Progress :: "'p::zero NetNode \<Rightarrow> 'p" where
  "Progress node = (case window node of [] \<Rightarrow> 0 | _ \<Rightarrow> stat_progress (last (window node)))"

definition IsInteresting :: "'p NetNode \<Rightarrow> 32 word \<Rightarrow> bool" where
  "IsInteresting node k =
     list_ex (\<lambda>st. rays_produced st \<noteq> 0 \<or> rays_killed st \<noteq> 0 \<or> rays_queued st \<noteq> 0)
       (take (unat k) (rev (window node)))"

text \<open>
  The part of the configuration that the handlers read.  The declaration of
  \<^verbatim>\<open>Config\<close> is not among the sources.  Modelled from the spec: the image width is at
  most 65535, a 16-bit unsigned value.
\<close>

record 'p Config =
  workers :: "string list"
  width :: "16 word"
  runaway :: 'p

text \<open>
  The coordinator's state: the library with its connections, the configuration, and the
  file-scope variables of engine.cpp.  A timer is the flag that says whether it is
  running; a semaphore is its value.  Lines written with \<^verbatim>\<open>TERRLN\<close> are kept in
  \<open>errlog\<close>; the informational output of \<^verbatim>\<open>TOUTLN\<close> and the wall-clock stamps are
  not part of the state; a line is a string or the dump of a message
  (\<^verbatim>\<open>ToString\<close>).  Of the image only whether \<^verbatim>\<open>StartSync\<close> has stored one is kept.
  \<open>stop_render_calls\<close> counts the calls of \<open>StopRender\<close>.
\<close>

datatype logline = Line string | MessageDump Message

record 'p engine =
  library :: "'p NetNode Library"
  config :: "'p Config"
  num_workers_connected :: nat
  num_workers_syncing :: nat
  num_workers_built :: nat
  num_workers_ready :: nat
  num_workers_complete :: nat
  max_intervals :: "32 word"
  use_linear_scan :: bool
  flush_timer :: bool
  interesting_timer :: bool
  runaway_timer :: bool
  sync_idle :: bool
  scene_work_queued :: bool
  mesh_read :: nat
  mesh_synced :: nat
  current_mesh_id :: "32 word"
  worker_bounds :: "(32 word \<times> byte list) list"
  image_stored :: bool
  errlog :: "logline list"
  stop_render_calls :: nat

definition TERRLN :: "logline \<Rightarrow> 'p engine \<Rightarrow> 'p engine" where
  "TERRLN line s = s\<lparr>errlog := errlog s @ [line]\<rparr>"

text \<open>
  \<^verbatim>\<open>Library::ForEachNetNode\<close>: the ids from 1 up to the size of the table, in
  order, skipping null pointers.  The callback gets the id and the node; it may change
  the node and the variables it captured by reference, which are the accumulator here.
  (The counter is a \<^verbatim>\<open>uint32_t\<close> as in \<open>BuildSpatialIndex\<close>; the handlers below run on
  tables of at most \<open>2 ^ 32\<close> slots.)
\<close>

definition ForEachNetNode ::
  "(32 word \<Rightarrow> 'nd \<Rightarrow> 'a \<Rightarrow> 'nd \<times> 'a) \<Rightarrow> 'nd option list \<Rightarrow> 'a \<Rightarrow> 'nd option list \<times> 'a" where
  "ForEachNetNode func ns a =
     fold (\<lambda>i (ns', a').
             case ns' ! i of
               None \<Rightarrow> (ns', a')
             | Some node \<Rightarrow> (case func (of_nat i) node a' of
                              (node', a'') \<Rightarrow> (ns'[i := Some node'], a'')))
          [1..<length ns] (ns, a)"

definition set_nodes :: "'p NetNode option list \<Rightarrow> 'p engine \<Rightarrow> 'p engine" where
  "set_nodes ns s = s\<lparr>library := (library s)\<lparr>nodes := ns\<rparr>\<rparr>"

text \<open>A callback that changes only the node it is given.\<close>

definition for_each_node :: "(32 word \<Rightarrow> 'p NetNode \<Rightarrow> 'p NetNode) \<Rightarrow> 'p engine \<Rightarrow> 'p engine" where
  "for_each_node f s =
     set_nodes (fst (ForEachNetNode (\<lambda>ident node u. (f ident node, u)) (nodes (library s)) ())) s"

text \<open>
  A handler is called with a pointer to a node of the library.  Here a node is named by
  its slot in the table; \<open>get_node\<close> reads the slot and \<open>set_node\<close> writes the node
  back after the handler has changed it.
\<close>

definition get_node :: "'p engine \<Rightarrow> nat \<Rightarrow> 'p NetNode option" where
  "get_node s i = (if i < length (nodes (library s)) then nodes (library s) ! i else None)"

definition set_node :: "nat \<Rightarrow> 'p NetNode \<Rightarrow> 'p engine \<Rightarrow> 'p engine" where
  "set_node i node s = set_nodes ((nodes (library s))[i := Some node]) s"

subsection \<open>Starting and stopping the render\<close>

text \<open>
  The local variables of the callback of \<^verbatim>\<open>StartRender\<close>, for the worker with the
  given id:
  \<^verbatim>\<open>uint16_t chunk_size = config->width / config->workers.size();\<close>
  \<^verbatim>\<open>int16_t offset = (id - 1) * chunk_size;\<close>
  \<^verbatim>\<open>if (id == config->workers.size()) chunk_size = config->width - (id - 1) * chunk_size;\<close>
  \<^verbatim>\<open>uint32_t payload = (offset << 16) | chunk_size;\<close>
  The id is a \<^verbatim>\<open>uint32_t\<close>, so the products and the difference are computed in 32
  bits and then cut to 16.  The offset is a signed 16-bit value: in the shift it is
  promoted to a 32-bit \<^verbatim>\<open>int\<close> with its sign, and the result is read as unsigned.
\<close>

definition render_chunk_size0 :: "'p Config \<Rightarrow> 16 word" where
  "render_chunk_size0 cfg = of_nat (unat (width cfg) div length (workers cfg))"

definition render_offset :: "'p Config \<Rightarrow> 32 word \<Rightarrow> 16 word" where
  "render_offset cfg ident = ucast ((ident - 1) * ucast (render_chunk_size0 cfg) :: 32 word)"

definition render_chunk_size :: "'p Config \<Rightarrow> 32 word \<Rightarrow> 16 word" where
  "render_chunk_size cfg ident =
     (if unat ident = length (workers cfg)
      then ucast ((ucast (width cfg) :: 32 word) - (ident - 1) * ucast (render_chunk_size0 cfg))
      else render_chunk_size0 cfg)"

definition render_payload :: "'p Config \<Rightarrow> 32 word \<Rightarrow> 32 word" where
  "render_payload cfg ident =
     push_bit 16 (scast (render_offset cfg ident) :: 32 word) OR ucast (render_chunk_size cfg ident)"

definition RENDER_START_request :: "'p Config \<Rightarrow> 32 word \<Rightarrow> Message" where
  "RENDER_START_request cfg ident =
     \<lparr>msg_kind = Kind_RENDER_START, msg_size = 4, msg_body = u32_bytes (render_payload cfg ident)\<rparr>"

text \<open>
  \<^verbatim>\<open>StartRender\<close> sends the request to every worker, puts it in state RENDERING, and
  starts the interesting and the runaway timer.  The division by the number of
  configured workers is a fault when that number is zero and the callback runs at all.
  (A failing libuv call makes \<^verbatim>\<open>CheckUVResult\<close> abort; the timers of the model do not
  fail.)
\<close>

definition StartRender :: "'p engine \<Rightarrow> fault + 'p engine" where
  "StartRender s =
     (if workers (config s) = [] \<and> list_ex (\<lambda>x. x \<noteq> None) (tl (nodes (library s)))
      then Inl DivisionByZero
      else Inr ((for_each_node
                   (\<lambda>ident node. (Send (RENDER_START_request (config s) ident) node)\<lparr>state := RENDERING\<rparr>)
                   s)
                \<lparr>interesting_timer := True, runaway_timer := True\<rparr>))"

text \<open>
  \<^verbatim>\<open>StopRender\<close> stops both timers, then sends RENDER_STOP to every worker and puts it
  in state SYNCING_IMAGES.
\<close>

definition StopRender :: "'p engine \<Rightarrow> 'p engine" where
  "StopRender s =
     for_each_node
       (\<lambda>ident node. (Send (Message_of_kind Kind_RENDER_STOP) node)\<lparr>state := SYNCING_IMAGES\<rparr>)
       (s\<lparr>interesting_timer := False, runaway_timer := False,
          stop_render_calls := Suc (stop_render_calls s)\<rparr>)"

subsection \<open>The monitors\<close>

text \<open>
  \<^verbatim>\<open>OnInterestingTimeout\<close>: \<open>done\<close> starts true and every node conjoins that it is
  not interesting; when it is still true after the loop the render is stopped.  (The
  rest of the handler prints ray totals.)
\<close>

definition OnInterestingTimeout :: "'p engine \<Rightarrow> 'p engine" where
  "OnInterestingTimeout s =
     (let done = snd (ForEachNetNode
                        (\<lambda>ident node done. (node, done \<and> \<not> IsInteresting node (max_intervals s)))
                        (nodes (library s)) True)
      in if done then StopRender s else s)"

text \<open>
  \<^verbatim>\<open>OnRunawayTimeout\<close>.  \<open>slowest\<close> starts at infinity, which is \<open>None\<close> here, and
  each node lowers it to its progress when that is less.  The comparisons of the second
  loop are \<^verbatim>\<open>progress > slowest + runaway\<close> and \<^verbatim>\<open>progress <= slowest\<close>.
\<close>

definition less_slowest :: "'p::linorder \<Rightarrow> 'p option \<Rightarrow> bool" where
  "less_slowest progress slowest = (case slowest of None \<Rightarrow> True | Some sl \<Rightarrow> progress < sl)"

definition exceeds_runaway :: "'p::{linorder,plus} \<Rightarrow> 'p option \<Rightarrow> 'p \<Rightarrow> bool" where
  "exceeds_runaway progress slowest r =
     (case slowest of None \<Rightarrow> False | Some sl \<Rightarrow> progress > sl + r)"

definition at_most_slowest :: "'p::linorder \<Rightarrow> 'p option \<Rightarrow> bool" where
  "at_most_slowest progress slowest = (case slowest of None \<Rightarrow> True | Some sl \<Rightarrow> progress \<le> sl)"

definition find_slowest :: "'p::{linorder,zero} NetNode option list \<Rightarrow> 'p option" where
  "find_slowest ns =
     snd (ForEachNetNode
            (\<lambda>ident node slowest.
               (node, if less_slowest (Progress node) slowest then Some (Progress node) else slowest))
            ns None)"

definition runaway_check ::
  "'p::{linorder,plus,zero} option \<Rightarrow> 'p \<Rightarrow> 'p NetNode \<Rightarrow> 'p NetNode" where
  "runaway_check slowest r node =
     (let progress = Progress node in
      if exceeds_runaway progress slowest r
      then (if state node \<noteq> PAUSED
            then Send (Message_of_kind Kind_RENDER_PAUSE) (node\<lparr>state := PAUSED\<rparr>)
            else node)
      else if at_most_slowest progress slowest
      then (if state node = PAUSED
            then Send (Message_of_kind Kind_RENDER_RESUME) (node\<lparr>state := RENDERING\<rparr>)
            else node)
      else node)"

definition OnRunawayTimeout :: "'p::{linorder,plus,zero} engine \<Rightarrow> 'p engine" where
  "OnRunawayTimeout s =
     (let slowest = find_slowest (nodes (library s));
          r = runaway (config s)
      in for_each_node (\<lambda>ident node. runaway_check slowest r node) s)"

subsection \<open>Handlers of messages\<close>

text \<open>
  \<^verbatim>\<open>StartSync\<close> builds the spatial index, stores a new image, initialises
  \<open>mesh_read\<close> to 0 and \<open>mesh_synced\<close> to 1, queues the parsing of the scene on the
  thread pool and starts the idle handler.
\<close>

definition StartSync :: "'p engine \<Rightarrow> fault + 'p engine" where
  "StartSync s =
     (case BuildSpatialIndex SPACECODE_MAX (library s) of
        Inl e \<Rightarrow> Inl e
      | Inr l \<Rightarrow>
          Inr (s\<lparr>library := l, image_stored := True, mesh_read := 0, mesh_synced := 1,
                 scene_work_queued := True, sync_idle := True\<rparr>))"

definition BuildWBVH :: "'p engine \<Rightarrow> 'p engine" where
  "BuildWBVH s = for_each_node (\<lambda>ident node. SendWBVH (node\<lparr>state := SYNCING_WBVH\<rparr>)) s"

text \<open>
  The size of a \<^verbatim>\<open>BoundingBox\<close>, two corners of three floats each (its declaration
  is not among the sources).
\<close>

definition sizeof_BoundingBox :: "32 word" where
  "sizeof_BoundingBox = 24"

text \<open>
  \<^verbatim>\<open>OnOK\<close>.  The case SYNCING_WBVH is a function of its own because the case
  BUILDING_BVH, in linear-scan mode, sets the state to SYNCING_WBVH and calls
  \<^verbatim>\<open>OnOK\<close> again.  (\<^verbatim>\<open>sem_post\<close> fails only when the semaphore overflows; the
  semaphores of the model do not.)
\<close>

definition OnOK_SYNCING_WBVH :: "nat \<Rightarrow> 'p NetNode \<Rightarrow> 'p engine \<Rightarrow> fault + 'p engine" where
  "OnOK_SYNCING_WBVH i node s =
     (let s1 = (set_node i (node\<lparr>state := READY\<rparr>) s)
                 \<lparr>num_workers_ready := Suc (num_workers_ready s)\<rparr>
      in if num_workers_ready s1 = length (workers (config s1)) then StartRender s1 else Inr s1)"

definition OnOK :: "nat \<Rightarrow> 'p engine \<Rightarrow> fault + 'p engine" where
  "OnOK i s =
     (case get_node s i of
        None \<Rightarrow> Inr s
      | Some node \<Rightarrow>
          (case state node of
             INITIALIZING \<Rightarrow> Inr (set_node i (SendConfig (node\<lparr>state := CONFIGURING\<rparr>)) s)
           | CONFIGURING \<Rightarrow>
               (let s1 = (set_node i (node\<lparr>state := SYNCING_ASSETS\<rparr>) s)
                           \<lparr>num_workers_syncing := Suc (num_workers_syncing s)\<rparr>
                in if num_workers_syncing s1 = length (workers (config s1))
                   then StartSync s1 else Inr s1)
           | SYNCING_ASSETS \<Rightarrow>
               (case StoreMesh (library s) (current_mesh_id s) None of
                  Inl e \<Rightarrow> Inl e
                | Inr l \<Rightarrow> Inr (s\<lparr>library := l, mesh_synced := Suc (mesh_synced s)\<rparr>))
           | SYNCING_CAMERA \<Rightarrow> Inr (set_node i (SendLightList (node\<lparr>state := SYNCING_EMISSIVE\<rparr>)) s)
           | SYNCING_EMISSIVE \<Rightarrow>
               Inr (set_node i (Send (Message_of_kind Kind_BUILD_BVH) (node\<lparr>state := BUILDING_BVH\<rparr>)) s)
           | BUILDING_BVH \<Rightarrow>
               if msg_size (message node) \<noteq> sizeof_BoundingBox then Inl AssertionFailed
               else
                 (let s1 = s\<lparr>worker_bounds := worker_bounds s @ [(me node, msg_body (message node))],
                              num_workers_built := Suc (num_workers_built s)\<rparr>
                  in if use_linear_scan s1
                     then OnOK_SYNCING_WBVH i (node\<lparr>state := SYNCING_WBVH\<rparr>)
                            (set_node i (node\<lparr>state := SYNCING_WBVH\<rparr>) s1)
                     else if num_workers_built s1 = length (workers (config s1))
                     then Inr (BuildWBVH s1) else Inr s1)
           | SYNCING_WBVH \<Rightarrow> OnOK_SYNCING_WBVH i node s
           | _ \<Rightarrow> Inr (TERRLN (Line ''Received OK in unexpected state.'') s)))"

definition OnRenderStats :: "(byte list \<Rightarrow> 'p RenderStats) \<Rightarrow> nat \<Rightarrow> 'p engine \<Rightarrow> 'p engine" where
  "OnRenderStats parse i s =
     (case get_node s i of
        None \<Rightarrow> s
      | Some node \<Rightarrow> set_node i (ReceiveRenderStats parse node) s)"

text \<open>
  \<^verbatim>\<open>OnSyncImage\<close> asserts that the library has an image, writes and merges the
  component image (files and pixels are not part of the state), counts the worker as
  complete and, after the last one, closes every connection and stops the flush timer.
\<close>

definition OnSyncImage :: "nat \<Rightarrow> 'p engine \<Rightarrow> fault + 'p engine" where
  "OnSyncImage i s =
     (if \<not> image_stored s then Inl AssertionFailed
      else
        (let s1 = s\<lparr>num_workers_complete := Suc (num_workers_complete s)\<rparr>
         in if num_workers_complete s1 < length (workers (config s1)) then Inr s1
            else Inr ((for_each_node (\<lambda>ident node. node\<lparr>socket_closed := True\<rparr>) s1)
                      \<lparr>flush_timer := False\<rparr>)))"

text \<open>
  \<^verbatim>\<open>DispatchMessage\<close> switches on the kind of the message that the node has just
  received.
\<close>

definition DispatchMessage ::
  "(byte list \<Rightarrow> 'p RenderStats) \<Rightarrow> nat \<Rightarrow> 'p engine \<Rightarrow> fault + 'p engine" where
  "DispatchMessage parse i s =
     (case get_node s i of
        None \<Rightarrow> Inr s
      | Some node \<Rightarrow>
          if msg_kind (message node) = Kind_OK then OnOK i s
          else if msg_kind (message node) = Kind_RENDER_STATS then Inr (OnRenderStats parse i s)
          else if msg_kind (message node) = Kind_SYNC_IMAGE then OnSyncImage i s
          else Inr (TERRLN (MessageDump (message node))
                      (TERRLN (Line ''Received unexpected message.'') s)))"

subsection \<open>Runs of the reactor\<close>

text \<open>
  The events the reactor handles while it renders: a complete frame from the worker in
  slot \<open>i\<close>, which \<^verbatim>\<open>Receive\<close> leaves in the node's \<open>message\<close> before it calls the
  dispatcher, and the ticks of the two monitors.  A timer that is stopped does not call
  its handler, so its tick leaves the state as it is.  A run stops at the first fault.
\<close>

datatype event = Frame nat Message | InterestingTick | RunawayTick

definition fire ::
  "(byte list \<Rightarrow> 'p RenderStats) \<Rightarrow> event \<Rightarrow> 'p::{linorder,plus,zero} engine \<Rightarrow> fault + 'p engine" where
  "fire parse ev s =
     (case ev of
        Frame i msg \<Rightarrow>
          (case get_node s i of
             None \<Rightarrow> Inr s
           | Some node \<Rightarrow> DispatchMessage parse i (set_node i (node\<lparr>message := msg\<rparr>) s))
      | InterestingTick \<Rightarrow> Inr (if interesting_timer s then OnInterestingTimeout s else s)
      | RunawayTick \<Rightarrow> Inr (if runaway_timer s then OnRunawayTimeout s else s))"

fun run ::
  "(byte list \<Rightarrow> 'p RenderStats) \<Rightarrow> event list \<Rightarrow> 'p::{linorder,plus,zero} engine \<Rightarrow> fault + 'p engine" where
  "run parse [] s = Inr s"
| "run parse (ev # evs) s =
     (case fire parse ev s of Inl e \<Rightarrow> Inl e | Inr s' \<Rightarrow> run parse evs s')"

subsection \<open>Notions used to state the properties\<close>

text \<open>The nodes that \<open>ForEachNetNode\<close> visits: the entries of the table after slot 0 that are not null.\<close>

fun somes :: "'a option list \<Rightarrow> 'a list" where
  "somes [] = []"
| "somes (None # xs) = somes xs"
| "somes (Some x # xs) = x # somes xs"

definition net_nodes :: "'nd option list \<Rightarrow> 'nd list" where
  "net_nodes ns = somes (tl ns)"

text \<open>
  The two phases of the coordinator from \<open>StartRender\<close> on.  While it renders, both
  monitors run, \<open>StopRender\<close> has not been called and every worker is RENDERING or
  PAUSED; once the render is stopped, both monitors are stopped, \<open>StopRender\<close> has been
  called once and every worker is in SYNCING_IMAGES.  Slot 0 of the table is reserved and
  holds no node.
\<close>

definition rendering_phase :: "'p engine \<Rightarrow> bool" where
  "rendering_phase s =
     (interesting_timer s \<and> runaway_timer s \<and> stop_render_calls s = 0 \<and>
      get_node s 0 = None \<and>
      list_all (\<lambda>node. state node = RENDERING \<or> state node = PAUSED) (net_nodes (nodes (library s))))"

definition stopped_phase :: "'p engine \<Rightarrow> bool" where
  "stopped_phase s =
     (\<not> interesting_timer s \<and> \<not> runaway_timer s \<and> stop_render_calls s = 1 \<and>
      get_node s 0 = None \<and>
      list_all (\<lambda>node. state node = SYNCING_IMAGES) (net_nodes (nodes (library s))))"

subsection \<open>Initial states\<close>

text \<open>
  The constructor of \<^verbatim>\<open>NetNode\<close> (state NONE, nothing read or written; \<open>me\<close> is
  assigned when the workers have connected), the file-scope variables of engine.cpp with
  their initialisers after \<^verbatim>\<open>EngineInit\<close> has created the library and stored its
  arguments, and \<^verbatim>\<open>client::Init\<close>, which registers one node per configured worker
  and starts the flush timer.
\<close>

definition NetNode_new :: "'p NetNode" where
  "NetNode_new =
     \<lparr>state = NONE, me = 0, message = \<lparr>msg_kind = 0, msg_size = 0, msg_body = []\<rparr>,
      outbox = [], window = [], socket_closed = False\<rparr>"

definition engine_new :: "'p Config \<Rightarrow> 32 word \<Rightarrow> bool \<Rightarrow> 'p engine" where
  "engine_new cfg intervals linear_scan =
     \<lparr>library = Library_new, config = cfg,
      num_workers_connected = 0, num_workers_syncing = 0, num_workers_built = 0,
      num_workers_ready = 0, num_workers_complete = 0,
      max_intervals = intervals, use_linear_scan = linear_scan,
      flush_timer = False, interesting_timer = False, runaway_timer = False,
      sync_idle = False, scene_work_queued = False, mesh_read = 0, mesh_synced = 0,
      current_mesh_id = 0, worker_bounds = [], image_stored = False, errlog = [],
      stop_render_calls = 0\<rparr>"

definition client_Init :: "'p engine \<Rightarrow> fault + 'p engine" where
  "client_Init s =
     (case register_workers 0 (map (\<lambda>w. NetNode_new) (workers (config s))) (library s) of
        Inl e \<Rightarrow> Inl e
      | Inr l \<Rightarrow> Inr (s\<lparr>library := l, flush_timer := True\<rparr>))"

definition EngineInit :: "'p Config \<Rightarrow> 32 word \<Rightarrow> bool \<Rightarrow> fault + 'p engine" where
  "EngineInit cfg intervals linear_scan = client_Init (engine_new cfg intervals linear_scan)"

section \<open>Message framing (types/net\_node.cpp)\<close>

text \<open>
  \<^verbatim>\<open>memcpy(dst + off, src, n)\<close> on byte arrays as lists: the bytes of \<open>src\<close> replace
  those of \<open>dst\<close> from position \<open>off\<close> on.  Every use below is preceded by the test
  that keeps the copy inside the destination.
\<close>

definition memcpy_at :: "byte list \<Rightarrow> nat \<Rightarrow> byte list \<Rightarrow> byte list" where
  "memcpy_at dst off src = take off dst @ src @ drop (off + length src) dst"

subsection \<open>Receiving\<close>

text \<open>
  The receiving side of a \<^verbatim>\<open>NetNode\<close>: the read mode, the count of bytes read of the
  current header or body, and the message being assembled.  The first eight bytes of the
  \<^verbatim>\<open>message\<close> structure, which hold its kind and its size, are \<open>rx_header\<close>; the
  storage that \<^verbatim>\<open>message.body\<close> points to is \<open>rx_body\<close>.  \<open>dispatched\<close> records the
  messages with which the dispatcher has been called, in order.
\<close>

datatype ReadMode = HEADER | BODY

record Receiver =
  mode :: ReadMode
  nread :: nat
  rx_header :: "byte list"
  rx_body :: "byte list"
  dispatched :: "Message list"

definition rx_kind :: "Receiver \<Rightarrow> 32 word" where
  "rx_kind r = bytes_u32 (take 4 (rx_header r))"

definition rx_size :: "Receiver \<Rightarrow> 32 word" where
  "rx_size r = bytes_u32 (drop 4 (rx_header r))"

definition Receiver_new :: Receiver where
  "Receiver_new =
     \<lparr>mode = HEADER, nread = 0, rx_header = replicate 8 0, rx_body = [], dispatched = []\<rparr>"

text \<open>
  The loop of \<^verbatim>\<open>NetNode::Receive\<close> on the bytes that remain of the chunk.  In mode
  HEADER it needs \<open>8 - nread\<close> more bytes; when the chunk has them it completes the
  header, allocates the body (\<^verbatim>\<open>malloc\<close>, assumed to succeed; the fresh storage is
  zero here, and every byte of it is written before the message is dispatched) and goes
  on in mode BODY; otherwise it copies what is there and stops.  In mode BODY it needs
  \<open>size - nread\<close> more bytes; when the chunk has them it completes the body, calls the
  dispatcher and goes on in mode HEADER; otherwise it copies what is there and stops.
  A count \<open>nread\<close> beyond the header or the body would make the number of bytes to go
  negative and the copy overrun: that is a fault.
\<close>

function Receive_loop :: "Receiver \<Rightarrow> byte list \<Rightarrow> fault + Receiver" where
  "Receive_loop r buf =
     (if mode r = HEADER
      then (if 8 < nread r then Inl BufferOverrun
            else if 8 - nread r \<le> length buf
            then Receive_loop
                   (r\<lparr>rx_header := memcpy_at (rx_header r) (nread r) (take (8 - nread r) buf),
                      nread := 0,
                      rx_body :=
                        replicate
                          (unat (bytes_u32
                             (drop 4 (memcpy_at (rx_header r) (nread r) (take (8 - nread r) buf)))))
                          0,
                      mode := BODY\<rparr>)
                   (drop (8 - nread r) buf)
            else Inr (r\<lparr>rx_header := memcpy_at (rx_header r) (nread r) buf,
                        nread := nread r + length buf\<rparr>))
      else (if unat (rx_size r) < nread r then Inl BufferOverrun
            else if unat (rx_size r) - nread r \<le> length buf
            then Receive_loop
                   (r\<lparr>rx_body :=
                        memcpy_at (rx_body r) (nread r) (take (unat (rx_size r) - nread r) buf),
                      nread := 0,
                      dispatched :=
                        dispatched r @
                          [\<lparr>msg_kind = rx_kind r, msg_size = rx_size r,
                            msg_body =
                              memcpy_at (rx_body r) (nread r)
                                (take (unat (rx_size r) - nread r) buf)\<rparr>],
                      mode := HEADER\<rparr>)
                   (drop (unat (rx_size r) - nread r) buf)
            else Inr (r\<lparr>rx_body := memcpy_at (rx_body r) (nread r) buf,
                        nread := nread r + length buf\<rparr>)))"
  by pat_completeness auto
termination
  by (relation "measure (\<lambda>(r, buf).
        3 * length buf + (if mode r = HEADER then (if 8 \<le> nread r then 2 else 0) else 1))")
     (auto split: if_splits)

declare Receive_loop.simps [simp del]

text \<open>\<^verbatim>\<open>Receive\<close> returns at once on an empty chunk.\<close>

definition Receive :: "Receiver \<Rightarrow> byte list \<Rightarrow> fault + Receiver" where
  "Receive r buf = (if buf = [] then Inr r else Receive_loop r buf)"

fun Receive_all :: "Receiver \<Rightarrow> byte list list \<Rightarrow> fault + Receiver" where
  "Receive_all r [] = Inr r"
| "Receive_all r (c # cs) =
     (case Receive r c of Inl e \<Rightarrow> Inl e | Inr r' \<Rightarrow> Receive_all r' cs)"

subsection \<open>Sending\<close>

text \<open>
  The sending side of a \<^verbatim>\<open>NetNode\<close>: the write buffer, whose size is
  \<^verbatim>\<open>FR_WRITE_BUFFER_SIZE\<close> (a macro that is not among the sources: it is the length
  of \<open>buffer\<close> here), the count of bytes written to it and the flag of the flush timer.
  \<open>wire\<close> records the buffers handed to \<^verbatim>\<open>uv_write\<close>, in order.
\<close>

record Sender =
  buffer :: "byte list"
  nwritten :: nat
  flushed :: bool
  wire :: "byte list list"

definition Sender_new :: "nat \<Rightarrow> Sender" where
  "Sender_new w = \<lparr>buffer = replicate w 0, nwritten = 0, flushed = False, wire = []\<rparr>"

text \<open>
  \<^verbatim>\<open>Flush\<close> does nothing on an empty buffer; otherwise it writes the first
  \<open>nwritten\<close> bytes of the buffer to the socket, sets the flag and empties the buffer.
  (A failing write aborts the process; the socket of the model does not fail.)
\<close>

definition Flush :: "Sender \<Rightarrow> Sender" where
  "Flush s =
     (if nwritten s \<le> 0 then s
      else s\<lparr>wire := wire s @ [take (nwritten s) (buffer s)], flushed := True, nwritten := 0\<rparr>)"

text \<open>
  The loop of \<^verbatim>\<open>NetNode::Send\<close> that copies the body.  \<open>bytes_remaining\<close> and
  \<open>space_left\<close> are signed in the source.  When the rest of the body fits it is copied
  and the loop ends; otherwise the buffer is filled to the end, when there is room, and
  flushed.  With a buffer of size zero the loop would never end.  More bytes sent than
  the body has would make the remaining count negative and the copy overrun.
\<close>

function Send_body :: "Message \<Rightarrow> nat \<Rightarrow> Sender \<Rightarrow> fault + Sender" where
  "Send_body msg bytes_sent s =
     (if unat (msg_size msg) < bytes_sent then Inl BufferOverrun
      else if int (unat (msg_size msg) - bytes_sent) \<le> int (length (buffer s)) - int (nwritten s)
      then Inr (s\<lparr>buffer :=
                    memcpy_at (buffer s) (nwritten s)
                      (take (unat (msg_size msg) - bytes_sent) (drop bytes_sent (msg_body msg))),
                  nwritten := nwritten s + (unat (msg_size msg) - bytes_sent)\<rparr>)
      else if length (buffer s) = 0 then Inl NeverReturns
      else if nwritten s < length (buffer s)
      then Send_body msg (bytes_sent + (length (buffer s) - nwritten s))
             (Flush (s\<lparr>buffer :=
                         memcpy_at (buffer s) (nwritten s)
                           (take (length (buffer s) - nwritten s) (drop bytes_sent (msg_body msg))),
                       nwritten := nwritten s + (length (buffer s) - nwritten s)\<rparr>))
      else Send_body msg bytes_sent (Flush s))"
  by pat_completeness auto
termination
  apply (relation "measure (\<lambda>(msg, bytes_sent, s).
           2 * (unat (msg_size msg) - bytes_sent)
           + (if length (buffer s) \<le> nwritten s then 1 else 0))")
    apply (auto simp: Flush_def memcpy_at_def uint_nat simp del: of_nat_unat split: if_splits)
  done

declare Send_body.simps [simp del]

text \<open>
  \<^verbatim>\<open>Send\<close> flushes when the header does not fit behind what is buffered, copies the
  eight bytes of kind and size from the message structure, and then copies the body.  A
  buffer of fewer than eight bytes is overrun by the header.  The body pointer must have
  \<open>size\<close> bytes behind it; reading past a shorter body is a fault.
\<close>

definition header_bytes :: "Message \<Rightarrow> byte list" where
  "header_bytes msg = u32_bytes (msg_kind msg) @ u32_bytes (msg_size msg)"

definition Send_bytes :: "Message \<Rightarrow> Sender \<Rightarrow> fault + Sender" where
  "Send_bytes msg s =
     (if length (msg_body msg) < unat (msg_size msg) then Inl OutOfBounds
      else
        (let s1 = (if length (buffer s) < nwritten s + 8 then Flush s else s)
         in if length (buffer s1) < nwritten s1 + 8 then Inl BufferOverrun
            else Send_body msg 0
                   (s1\<lparr>buffer := memcpy_at (buffer s1) (nwritten s1) (header_bytes msg),
                       nwritten := nwritten s1 + 8\<rparr>)))"

text \<open>
  What a connection does on its sending side: messages are sent, and in between the
  buffer is flushed by the flush timer.
\<close>

datatype send_op = DoSend Message | DoFlush

fun run_sender :: "send_op list \<Rightarrow> Sender \<Rightarrow> fault + Sender" where
  "run_sender [] s = Inr s"
| "run_sender (DoSend msg # ops) s =
     (case Send_bytes msg s of Inl e \<Rightarrow> Inl e | Inr s' \<Rightarrow> run_sender ops s')"
| "run_sender (DoFlush # ops) s = run_sender ops (Flush s)"

fun sent_messages :: "send_op list \<Rightarrow> Message list" where
  "sent_messages [] = []"
| "sent_messages (DoSend msg # ops) = msg # sent_messages ops"
| "sent_messages (DoFlush # ops) = sent_messages ops"

text \<open>A message is well formed when its size field is the length of its body.\<close>

definition wf_message :: "Message \<Rightarrow> bool" where
  "wf_message msg = (length (msg_body msg) = unat (msg_size msg))"

subsection \<open>Notions used to state the properties of the framing\<close>

text \<open>
  The bytes a sender has put on the wire followed by those still in its buffer, and the
  encoding of a message: eight bytes of header and then the body.
\<close>

definition pending :: "Sender \<Rightarrow> byte list" where
  "pending s = take (nwritten s) (buffer s)"

definition out_stream :: "Sender \<Rightarrow> byte list" where
  "out_stream s = concat (wire s) @ pending s"

definition encode :: "Message \<Rightarrow> byte list" where
  "encode msg = header_bytes msg @ msg_body msg"

text \<open>
  The receiver is in order when its header storage has eight bytes and, in mode BODY,
  its body storage has \<open>size\<close> bytes, with \<open>nread\<close> within the part being read.
  Between two chunks it is moreover waiting for at least one byte.
\<close>

definition rx_ok :: "Receiver \<Rightarrow> bool" where
  "rx_ok r =
     (length (rx_header r) = 8 \<and>
      (if mode r = HEADER then nread r \<le> 8
       else nread r \<le> unat (rx_size r) \<and> length (rx_body r) = unat (rx_size r)))"

definition rx_waiting :: "Receiver \<Rightarrow> bool" where
  "rx_waiting r =
     (rx_ok r \<and> (if mode r = HEADER then nread r < 8 else nread r < unat (rx_size r)))"

section \<open>The mesh handoff (engine.cpp)\<close>

text \<open>
  The scene is parsed on a thread of the pool, which calls \<^verbatim>\<open>SyncMesh\<close> for every
  mesh and once more with a null pointer; the reactor thread sends the meshes from its
  idle handler.  The two threads meet at the semaphores \<open>mesh_read\<close> and \<open>mesh_synced\<close>.
\<close>

subsection \<open>The producer\<close>

text \<open>
  Modelled from the spec: \<^verbatim>\<open>Library::NextMeshID\<close> and \<^verbatim>\<open>Library::LookupMesh\<close> are
  not among the sources.  Ids are dense and 1-based, so the next id is the size of the
  table; a lookup reads the slot.
\<close>

definition NextMeshID :: "'nd Library \<Rightarrow> 32 word" where
  "NextMeshID l = of_nat (length (meshes l))"

definition LookupMesh :: "'nd Library \<Rightarrow> 32 word \<Rightarrow> Mesh option" where
  "LookupMesh l ident = (if unat ident < length (meshes l) then meshes l ! unat ident else None)"

text \<open>
  \<^verbatim>\<open>SyncMesh\<close> in its three steps.  \<^verbatim>\<open>sem_wait(&mesh_synced)\<close> cannot be taken
  while the semaphore is zero: the thread is blocked, which is \<open>None\<close>.  Then the mesh,
  when there is one, gets the next id and is stored in the library, and the id (zero
  for the null pointer) is written to \<open>current_mesh_id\<close>.  Then \<open>mesh_read\<close> is posted.
\<close>

definition SyncMesh_wait :: "'p engine \<Rightarrow> 'p engine option" where
  "SyncMesh_wait s =
     (if mesh_synced s = 0 then None else Some (s\<lparr>mesh_synced := mesh_synced s - 1\<rparr>))"

definition SyncMesh_publish :: "Mesh option \<Rightarrow> 'p engine \<Rightarrow> fault + 'p engine" where
  "SyncMesh_publish mesh s =
     (case mesh of
        None \<Rightarrow> Inr (s\<lparr>current_mesh_id := 0\<rparr>)
      | Some m \<Rightarrow>
          (case StoreMesh (library s) (NextMeshID (library s))
                  (Some (m\<lparr>mesh_id := NextMeshID (library s)\<rparr>)) of
             Inl e \<Rightarrow> Inl e
           | Inr l \<Rightarrow> Inr (s\<lparr>library := l, current_mesh_id := NextMeshID (library s)\<rparr>)))"

definition SyncMesh_post :: "'p engine \<Rightarrow> 'p engine" where
  "SyncMesh_post s = s\<lparr>mesh_read := Suc (mesh_read s)\<rparr>"

subsection \<open>The reactor\<close>

text \<open>
  \<^verbatim>\<open>OnSyncIdle\<close>.  \<^verbatim>\<open>sem_trywait(&mesh_read)\<close> fails on a zero semaphore and the
  handler returns.  Otherwise, with \<open>current_mesh_id\<close> zero the assets are done: the
  idle handler is stopped and every worker goes to SYNCING\_CAMERA and is sent the
  camera.  With any other id the mesh is looked up (and asserted not null) and sent to
  the worker that the spatial router names.  The router (\<^verbatim>\<open>SpaceEncode\<close> and
  \<^verbatim>\<open>LookupNetNodeBySpaceCode\<close>, not among the sources) is the parameter \<open>route\<close>; a
  worker id that names no node is a null pointer dereference.
\<close>

definition OnSyncIdle :: "('p engine \<Rightarrow> Mesh \<Rightarrow> 32 word) \<Rightarrow> 'p engine \<Rightarrow> fault + 'p engine" where
  "OnSyncIdle route s =
     (if mesh_read s = 0 then Inr s
      else
        (let s1 = s\<lparr>mesh_read := mesh_read s - 1\<rparr>
         in if current_mesh_id s1 = 0
            then Inr ((for_each_node (\<lambda>ident node. SendCamera (node\<lparr>state := SYNCING_CAMERA\<rparr>)) s1)
                      \<lparr>sync_idle := False\<rparr>)
            else (case LookupMesh (library s1) (current_mesh_id s1) of
                    None \<Rightarrow> Inl AssertionFailed
                  | Some mesh \<Rightarrow>
                      (case get_node s1 (unat (route s1 mesh)) of
                         None \<Rightarrow> Inl OutOfBounds
                       | Some node \<Rightarrow>
                           Inr (set_node (unat (route s1 mesh))
                                  (SendMesh (current_mesh_id s1) node) s1)))))"

subsection \<open>Interleavings\<close>

text \<open>
  The state of the handoff: the coordinator's state, which both threads share; where the
  producer is and which calls of \<^verbatim>\<open>SyncMesh\<close> the script still has to make (the
  head is the call in progress, the last is the call with the null pointer); and the
  meshes in flight, that is, sent to a worker by \<open>OnSyncIdle\<close> and not yet
  acknowledged, each with the slot of its worker.
\<close>

datatype producer_pc = Waiting | Publishing | Posting | Finished

record 'p handoff =
  eng :: "'p engine"
  pc :: producer_pc
  script :: "Mesh option list"
  in_flight :: "(nat \<times> 32 word) list"

text \<open>What a run of the idle handler puts in flight: the current mesh, when it sends one.\<close>

definition mesh_sent :: "('p engine \<Rightarrow> Mesh \<Rightarrow> 32 word) \<Rightarrow> 'p engine \<Rightarrow> (nat \<times> 32 word) list" where
  "mesh_sent route s =
     (if mesh_read s = 0 \<or> current_mesh_id s = 0 then []
      else (case LookupMesh (library s) (current_mesh_id s) of
              None \<Rightarrow> []
            | Some mesh \<Rightarrow>
                [(unat (route (s\<lparr>mesh_read := mesh_read s - 1\<rparr>) mesh), current_mesh_id s)]))"

text \<open>
  One step of either thread.  A step of the producer is one of the three steps of
  \<^verbatim>\<open>SyncMesh\<close>; a step of the reactor is a run of the idle handler, while it is
  started, or the handling of a worker's OK.  A worker sends OK during the streaming of
  assets to acknowledge a mesh it was sent, once for each mesh.
\<close>

inductive handoff_step ::
  "('p engine \<Rightarrow> Mesh \<Rightarrow> 32 word) \<Rightarrow> 'p handoff \<Rightarrow> 'p handoff \<Rightarrow> bool"
  for route :: "'p engine \<Rightarrow> Mesh \<Rightarrow> 32 word" where
  producer_wait:
    "pc h = Waiting \<Longrightarrow> SyncMesh_wait (eng h) = Some e' \<Longrightarrow>
     handoff_step route h (h\<lparr>eng := e', pc := Publishing\<rparr>)"
| producer_publish:
    "pc h = Publishing \<Longrightarrow> script h = m # rest \<Longrightarrow> SyncMesh_publish m (eng h) = Inr e' \<Longrightarrow>
     handoff_step route h (h\<lparr>eng := e', pc := Posting\<rparr>)"
| producer_post:
    "pc h = Posting \<Longrightarrow> script h = m # rest \<Longrightarrow>
     handoff_step route h
       (h\<lparr>eng := SyncMesh_post (eng h), script := rest,
          pc := (if rest = [] then Finished else Waiting)\<rparr>)"
| reactor_idle:
    "sync_idle (eng h) \<Longrightarrow> OnSyncIdle route (eng h) = Inr e' \<Longrightarrow>
     handoff_step route h (h\<lparr>eng := e', in_flight := in_flight h @ mesh_sent route (eng h)\<rparr>)"
| reactor_ok:
    "(i, m) \<in> set (in_flight h) \<Longrightarrow> OnOK i (eng h) = Inr e' \<Longrightarrow>
     handoff_step route h (h\<lparr>eng := e', in_flight := remove1 (i, m) (in_flight h)\<rparr>)"

text \<open>
  The handoff starts in the state that \<^verbatim>\<open>StartSync\<close> leaves: \<open>mesh_read\<close> is 0,
  \<open>mesh_synced\<close> is 1, the idle handler is started, every worker is in
  SYNCING\_ASSETS, the producer is about to make its first call and nothing is in flight.
\<close>

definition handoff_initial :: "'p handoff \<Rightarrow> bool" where
  "handoff_initial h =
     (mesh_read (eng h) = 0 \<and> mesh_synced (eng h) = 1 \<and> sync_idle (eng h) \<and>
      get_node (eng h) 0 = None \<and>
      list_all (\<lambda>node. state node = SYNCING_ASSETS) (net_nodes (nodes (library (eng h)))) \<and>
      pc h = Waiting \<and> script h \<noteq> [] \<and> in_flight h = [])"

inductive handoff_reachable ::
  "('p engine \<Rightarrow> Mesh \<Rightarrow> 32 word) \<Rightarrow> 'p handoff \<Rightarrow> bool"
  for route :: "'p engine \<Rightarrow> Mesh \<Rightarrow> 32 word" where
  start: "handoff_initial h \<Longrightarrow> handoff_reachable route h"
| step: "handoff_reachable route h \<Longrightarrow> handoff_step route h h' \<Longrightarrow> handoff_reachable route h'"

text \<open>
  The tokens of the handoff: the values of the two semaphores, the meshes in flight, and
  one for a producer that has passed \<^verbatim>\<open>sem_wait\<close> and has not yet posted.
\<close>

definition tokens :: "'p handoff \<Rightarrow> nat" where
  "tokens h =
     mesh_read (eng h) + mesh_synced (eng h) + length (in_flight h)
       + (if pc h = Publishing \<or> pc h = Posting then 1 else 0)"

text \<open>
  What holds of every reachable state of the handoff: there is at most one token; a mesh
  is in flight only while the idle handler is started, and then every worker is in
  SYNCING\_ASSETS; a mesh in flight is the current mesh and was sent to a worker of the
  table.  Slot 0 of the table of nodes holds no node.
\<close>

definition handoff_inv :: "'p handoff \<Rightarrow> bool" where
  "handoff_inv h =
     (tokens h \<le> 1 \<and> get_node (eng h) 0 = None \<and>
      (in_flight h \<noteq> [] \<longrightarrow> sync_idle (eng h)) \<and>
      (sync_idle (eng h) \<longrightarrow>
         list_all (\<lambda>node. state node = SYNCING_ASSETS) (net_nodes (nodes (library (eng h))))) \<and>
      (\<forall>x\<in>set (in_flight h). get_node (eng h) (fst x) \<noteq> None \<and> snd x = current_mesh_id (eng h)))"

section \<open>Properties of Buffer::Merge\<close>

lemma Merge_loop_ok:
  "length other \<le> length d \<Longrightarrow>
   \<exists>d'. Merge_loop i d other = Inr d' \<and> length d' = length d \<and>
        (\<forall>j<length d. d' ! j = (if i \<le> j \<and> j < length other then d ! j + other ! j else d ! j))"
proof (induction i d other rule: Merge_loop.induct)
  case (1 i d other)
  show ?case
  proof (cases "i < length other")
    case False
    then show ?thesis by (auto simp: Merge_loop.simps)
  next
    case True
    with "1.prems" have id: "i < length d" by simp
    from "1.prems" have len: "length other \<le> length (d[i := d ! i + other ! i])" by simp
    from "1.IH" [OF True id len] obtain d' where
      run: "Merge_loop (Suc i) (d[i := d ! i + other ! i]) other = Inr d'" and
      l: "length d' = length d" and
      pt: "\<forall>j<length d. d' ! j =
             (if Suc i \<le> j \<and> j < length other
              then (d[i := d ! i + other ! i]) ! j + other ! j
              else (d[i := d ! i + other ! i]) ! j)"
      by auto
    have "Merge_loop i d other = Inr d'"
      using True id run by (subst Merge_loop.simps) simp
    moreover have "\<forall>j<length d. d' ! j =
        (if i \<le> j \<and> j < length other then d ! j + other ! j else d ! j)"
    proof (intro allI impI)
      fix j assume j: "j < length d"
      show "d' ! j = (if i \<le> j \<and> j < length other then d ! j + other ! j else d ! j)"
      proof (cases "j = i")
        case True
        with pt j id \<open>i < length other\<close> show ?thesis by simp
      next
        case False
        with pt j show ?thesis by (auto simp: nth_list_update)
      qed
    qed
    ultimately show ?thesis using l by blast
  qed
qed

lemma Merge_loop_out_of_bounds:
  "length d < length other \<Longrightarrow> i \<le> length d \<Longrightarrow> Merge_loop i d other = Inl OutOfBounds"
proof (induction i d other rule: Merge_loop.induct)
  case (1 i d other)
  from "1.prems" have lt: "i < length other" by simp
  show ?case
  proof (cases "i < length d")
    case True
    have "Merge_loop (Suc i) (d[i := d ! i + other ! i]) other = Inl OutOfBounds"
      using "1.IH" [OF lt True] "1.prems" True by simp
    then show ?thesis using lt True by (subst Merge_loop.simps) simp
  next
    case False
    then show ?thesis using lt by (subst Merge_loop.simps) simp
  qed
qed

text \<open>
  C10.  \<open>Merge\<close> reads and writes this buffer at every index below the size of the other
  buffer: it faults (out of bounds) exactly when the other buffer's data is longer than
  this buffer's.  When the other buffer's data is no longer than this buffer's, it
  returns this buffer with the other's samples added pointwise, and with the width, the
  height and the data size unchanged.
\<close>

theorem Merge_in_bounds_pointwise_sum:
  fixes b other :: "'a::plus Buffer"
  shows "((Merge b other = Inl OutOfBounds) = (length (buf_data b) < length (buf_data other))) \<and>
         (length (buf_data other) \<le> length (buf_data b) \<longrightarrow>
           (\<exists>b'. Merge b other = Inr b' \<and>
              buf_width b' = buf_width b \<and> buf_height b' = buf_height b \<and>
              length (buf_data b') = length (buf_data b) \<and>
              (\<forall>i<length (buf_data b). buf_data b' ! i =
                 (if i < length (buf_data other)
                  then buf_data b ! i + buf_data other ! i
                  else buf_data b ! i))))"
proof (intro conjI impI)
  show "(Merge b other = Inl OutOfBounds) = (length (buf_data b) < length (buf_data other))"
  proof (cases "length (buf_data b) < length (buf_data other)")
    case True
    then show ?thesis
      by (simp add: Merge_def Merge_loop_out_of_bounds)
  next
    case False
    then have "length (buf_data other) \<le> length (buf_data b)" by simp
    from Merge_loop_ok [OF this, of 0] obtain d' where
      "Merge_loop 0 (buf_data b) (buf_data other) = Inr d'" by blast
    with False show ?thesis by (simp add: Merge_def)
  qed
next
  assume le: "length (buf_data other) \<le> length (buf_data b)"
  from Merge_loop_ok [OF le, of 0] obtain d' where
    run: "Merge_loop 0 (buf_data b) (buf_data other) = Inr d'" and
    l: "length d' = length (buf_data b)" and
    pt: "\<forall>j<length (buf_data b). d' ! j =
           (if 0 \<le> j \<and> j < length (buf_data other)
            then buf_data b ! j + buf_data other ! j else buf_data b ! j)"
    by blast
  have "Merge b other = Inr (b\<lparr>buf_data := d'\<rparr>)"
    using run by (simp add: Merge_def)
  then show "\<exists>b'. Merge b other = Inr b' \<and>
              buf_width b' = buf_width b \<and> buf_height b' = buf_height b \<and>
              length (buf_data b') = length (buf_data b) \<and>
              (\<forall>i<length (buf_data b). buf_data b' ! i =
                 (if i < length (buf_data other)
                  then buf_data b ! i + buf_data other ! i
                  else buf_data b ! i))"
    using l pt by simp
qed

theorem Merge_in_bounds_pointwise_sum_witness:
  "Merge \<lparr>buf_width = 2, buf_height = 1, buf_data = [1, 2 :: int]\<rparr>
         \<lparr>buf_width = 2, buf_height = 1, buf_data = [10, 20]\<rparr>
     = Inr \<lparr>buf_width = 2, buf_height = 1, buf_data = [11, 22]\<rparr> \<and>
   Merge \<lparr>buf_width = 1, buf_height = 1, buf_data = [1 :: int]\<rparr>
         \<lparr>buf_width = 2, buf_height = 1, buf_data = [10, 20]\<rparr>
     = Inl OutOfBounds"
  using Merge_in_bounds_pointwise_sum
          [of "\<lparr>buf_width = 2, buf_height = 1, buf_data = [1, 2 :: int]\<rparr>"
              "\<lparr>buf_width = 2, buf_height = 1, buf_data = [10, 20]\<rparr>"]
        Merge_in_bounds_pointwise_sum
          [of "\<lparr>buf_width = 1, buf_height = 1, buf_data = [1 :: int]\<rparr>"
              "\<lparr>buf_width = 2, buf_height = 1, buf_data = [10, 20]\<rparr>"]
  by (simp add: Merge_def Merge_loop.simps)

section \<open>Properties of the library\<close>

subsection \<open>Words\<close>

lemma unat_succ: "i \<noteq> - 1 \<Longrightarrow> unat (i + 1) = Suc (unat i)" for i :: "'a::len word"
  using unatSuc [of i] max_word_wrap [of i] by (auto simp: add.commute)


lemma replicate_Suc_update_last: "(replicate (Suc n) a)[n := x] = replicate n a @ [x]"
  by (induction n) auto

lemma store_slot_fresh:
  "length v \<le> unat i \<Longrightarrow> i \<noteq> - 1 \<Longrightarrow>
   store_slot v i x = Inr (v @ replicate (unat i - length v) None @ [x])"
  by (simp add: store_slot_def resize_def Let_def list_update_append unat_succ
        Suc_diff_le replicate_Suc_update_last del: replicate_Suc)













subsection \<open>The emissive index\<close>

lemma StoreMesh_emissive_index:
  "StoreMesh lib i mesh = Inr lib' \<Longrightarrow>
   emissive_index lib' =
     (case mesh of
        None \<Rightarrow> emissive_index lib
      | Some m \<Rightarrow>
          (case materials lib ! unat (material m) of
             Some mat \<Rightarrow> if emissive mat then emissive_index lib @ [i] else emissive_index lib
           | None \<Rightarrow> emissive_index lib))"
  by (auto simp: StoreMesh_def split: sum.splits option.splits if_splits)

lemma apply_lib_op_emissive_prefix:
  "apply_lib_op op lib = Inr lib' \<Longrightarrow> prefix (emissive_index lib) (emissive_index lib')"
proof (cases op)
  case (OpStoreMesh i x)
  assume "apply_lib_op op lib = Inr lib'"
  with OpStoreMesh have "StoreMesh lib i x = Inr lib'" by simp
  from StoreMesh_emissive_index [OF this] show ?thesis
    by (auto split: option.splits)
qed (auto simp: StoreShader_def StoreTexture_def StoreMaterial_def StoreNetNode_def
       split: sum.splits)

lemma run_lib_ops_emissive_prefix:
  "run_lib_ops ops lib = Inr lib' \<Longrightarrow> prefix (emissive_index lib) (emissive_index lib')"
proof (induction ops arbitrary: lib)
  case Nil
  then show ?case by simp
next
  case (Cons op ops)
  then obtain liba where s1: "apply_lib_op op lib = Inr liba" and r: "run_lib_ops ops liba = Inr lib'"
    by (auto split: sum.splits)
  from apply_lib_op_emissive_prefix [OF s1] Cons.IH [OF r] show ?case
    by (rule prefix_order.trans)
qed

lemma StoreMesh_nil_ok:
  "i \<noteq> - 1 \<or> unat i < length (meshes lib) \<Longrightarrow> \<exists>lib'. StoreMesh lib i None = Inr lib'"
  by (cases "i = - 1") (auto simp: StoreMesh_def store_slot_def resize_def Let_def unat_succ)

text \<open>
  C7.  The emissive index is append-only.  A \<open>StoreMesh\<close> of a mesh that is not null
  and whose material is emissive appends the mesh id to the emissive index (and leaves
  the index as it is when the material is not emissive); a \<open>StoreMesh\<close> of a null
  pointer leaves the index as it is; and after any sequence of the library's stores the
  old index is a prefix of the new one, so no id ever leaves it.
\<close>

theorem emissive_index_append_only:
  "(StoreMesh lib i None = Inr liba \<longrightarrow> emissive_index liba = emissive_index lib) \<and>
   (StoreMesh lib i (Some m) = Inr libb \<longrightarrow>
      unat (material m) < length (materials lib) \<and>
      (\<exists>mat. materials lib ! unat (material m) = Some mat \<and>
             emissive_index libb =
               (if emissive mat then emissive_index lib @ [i] else emissive_index lib))) \<and>
   (run_lib_ops ops lib = Inr libc \<longrightarrow> prefix (emissive_index lib) (emissive_index libc))"
proof (intro conjI impI)
  assume "StoreMesh lib i None = Inr liba"
  from StoreMesh_emissive_index [OF this] show "emissive_index liba = emissive_index lib"
    by simp
next
  assume st: "StoreMesh lib i (Some m) = Inr libb"
  then show "unat (material m) < length (materials lib)"
    by (auto simp: StoreMesh_def split: sum.splits if_splits)
  from st obtain mat where "materials lib ! unat (material m) = Some mat"
    by (auto simp: StoreMesh_def split: sum.splits if_splits option.splits)
  with StoreMesh_emissive_index [OF st]
  show "\<exists>mat. materials lib ! unat (material m) = Some mat \<and>
             emissive_index libb =
               (if emissive mat then emissive_index lib @ [i] else emissive_index lib)"
    by simp
next
  assume "run_lib_ops ops lib = Inr libc"
  then show "prefix (emissive_index lib) (emissive_index libc)"
    by (rule run_lib_ops_emissive_prefix)
qed

theorem emissive_index_append_only_witness:
  "StoreMesh (Library_new\<lparr>materials := [None, Some \<lparr>emissive = True\<rparr>]\<rparr> :: unit Library) 1
       (Some \<lparr>mesh_id = 1, material = 1\<rparr>)
     = Inr (Library_new\<lparr>materials := [None, Some \<lparr>emissive = True\<rparr>],
                        meshes := [None, Some \<lparr>mesh_id = 1, material = 1\<rparr>],
                        emissive_index := [1]\<rparr>) \<and>
   StoreMesh (Library_new\<lparr>materials := [None, Some \<lparr>emissive = True\<rparr>],
                        meshes := [None, Some \<lparr>mesh_id = 1, material = 1\<rparr>],
                        emissive_index := [1]\<rparr> :: unit Library) 1 None
     = Inr (Library_new\<lparr>materials := [None, Some \<lparr>emissive = True\<rparr>],
                        meshes := [None, None],
                        emissive_index := [1]\<rparr>) \<and>
   run_lib_ops [OpStoreMesh 1 (Some \<lparr>mesh_id = 1, material = 1\<rparr>), OpStoreMesh 1 None]
       (Library_new\<lparr>materials := [None, Some \<lparr>emissive = True\<rparr>]\<rparr> :: unit Library)
     = Inr (Library_new\<lparr>materials := [None, Some \<lparr>emissive = True\<rparr>],
                        meshes := [None, None],
                        emissive_index := [1]\<rparr>) \<and>
   prefix [] [1 :: 32 word]"
proof -
  let ?L = "Library_new\<lparr>materials := [None, Some \<lparr>emissive = True\<rparr>]\<rparr> :: unit Library"
  let ?M = "\<lparr>mesh_id = 1, material = 1\<rparr>"
  let ?La = "Library_new\<lparr>materials := [None, Some \<lparr>emissive = True\<rparr>],
                        meshes := [None, Some ?M], emissive_index := [1]\<rparr> :: unit Library"
  let ?Lb = "Library_new\<lparr>materials := [None, Some \<lparr>emissive = True\<rparr>],
                        meshes := [None, None], emissive_index := [1]\<rparr> :: unit Library"
  have a: "StoreMesh ?L 1 (Some ?M) = Inr ?La"
    by (simp add: StoreMesh_def store_slot_def resize_def Library_new_def Let_def)
  have b: "StoreMesh ?La 1 None = Inr ?Lb"
    by (simp add: StoreMesh_def store_slot_def resize_def Library_new_def Let_def)
  have c: "run_lib_ops [OpStoreMesh 1 (Some ?M), OpStoreMesh 1 None] ?L = Inr ?Lb"
    by (simp add: a b)
  from emissive_index_append_only
         [where lib = ?L and ops = "[OpStoreMesh 1 (Some ?M), OpStoreMesh 1 None]"
            and libc = ?Lb] c
  have "prefix (emissive_index ?L) (emissive_index ?Lb)" by blast
  then have "prefix [] [1 :: 32 word]" by (simp add: Library_new_def)
  with a b c show ?thesis by simp
qed

subsection \<open>The spatial index\<close>

lemma of_nat_32_small:
  "m < 2 ^ 32 - 1 \<Longrightarrow> unat (of_nat m :: 32 word) = m \<and> (of_nat m :: 32 word) \<noteq> - 1"
proof
  assume b: "m < 2 ^ 32 - 1"
  show u: "unat (of_nat m :: 32 word) = m" using b by (simp add: unat_of_nat)
  show "(of_nat m :: 32 word) \<noteq> - 1"
  proof
    assume "(of_nat m :: 32 word) = - 1"
    then have "unat (of_nat m :: 32 word) = unat (- 1 :: 32 word)" by (rule arg_cong)
    with u b show False by (simp add: unsigned_minus_1_eq_mask mask_eq_exp_minus_1)
  qed
qed

lemma store_slot_length:
  "length v = Suc n \<Longrightarrow> Suc n < 2 ^ 32 - 1 \<Longrightarrow>
   store_slot v (of_nat (Suc n)) (Some w) = Inr (v @ [Some w])"
  using store_slot_fresh [of v "of_nat (Suc n)" "Some w"] of_nat_32_small [of "Suc n"]
  by (simp del: of_nat_Suc)

lemma register_workers_nodes:
  "length (nodes lib) = Suc i \<Longrightarrow> i + length ws < 2 ^ 32 - 1 \<Longrightarrow>
   register_workers i ws lib = Inr (lib\<lparr>nodes := nodes lib @ map Some ws\<rparr>)"
proof (induction ws arbitrary: i lib)
  case Nil
  then show ?case by simp
next
  case (Cons w ws)
  have st: "store_slot (nodes lib) (of_nat (Suc i)) (Some w) = Inr (nodes lib @ [Some w])"
    using Cons.prems by (intro store_slot_length) auto
  have "register_workers (Suc i) ws (lib\<lparr>nodes := nodes lib @ [Some w]\<rparr>)
        = Inr (lib\<lparr>nodes := nodes lib @ [Some w]\<rparr>\<lparr>nodes := nodes (lib\<lparr>nodes := nodes lib @ [Some w]\<rparr>) @ map Some ws\<rparr>)"
    using Cons.prems by (intro Cons.IH) auto
  with st show ?case by (simp add: StoreNetNode_def)
qed

lemma div_mult_add_small: "r < n \<Longrightarrow> (n * q + r) div n = q" for n :: nat
  by simp

lemma floor_succ_is_ceiling_iff:
  "0 < n \<Longrightarrow> (a div n + 1 = ceil_div a n) = (\<not> n dvd a)"
proof (cases "n dvd a")
  case True
  assume n: "0 < n"
  from True obtain q where a: "a = n * q" by (auto simp: dvd_def)
  have e: "n * q + n - 1 = n * q + (n - 1)" using n by simp
  have "n - 1 < n" using n by simp
  then have "(n * q + n - 1) div n = q" by (simp only: e div_mult_add_small)
  with a n True show ?thesis by (simp add: ceil_div_def)
next
  case False
  assume n: "0 < n"
  define q r where "q = a div n" and "r = a mod n"
  have a: "a = n * q + r" and r: "0 < r" "r < n"
    using False n by (auto simp: q_def r_def dvd_eq_mod_eq_0)
  have e: "n * q + r + n - 1 = n * (q + 1) + (r - 1)" using r by simp
  have "r - 1 < n" using r by simp
  then have "(n * q + r + n - 1) div n = q + 1" by (simp only: e div_mult_add_small)
  with a n False show ?thesis by (simp add: ceil_div_def q_def)
qed


lemma spatial_index_for_registered:
  assumes "1 \<le> length ws" and "length ws < 2 ^ 32 - 1"
  shows "spatial_index_for S ws =
           Inr (Library_new\<lparr>nodes := [None] @ map Some ws,
                            spatial_index := map of_nat [1..<Suc (length ws)],
                            chunk_size := (S + 1) div of_nat (length ws) + 1\<rparr>)"
proof -
  have reg: "register_workers 0 ws (Library_new :: 'a Library)
               = Inr (Library_new\<lparr>nodes := [None] @ map Some ws\<rparr>)"
    using register_workers_nodes [of "Library_new :: 'a Library" 0 ws] assms
    by (simp add: Library_new_def)
  have "\<not> 2 ^ 64 dvd length ws"
    using assms by (intro nat_dvd_not_less) auto
  then have nz: "(of_nat (length ws) :: 64 word) \<noteq> 0"
    by (simp add: word_of_nat_eq_0_iff)
  have small: "\<not> 2 ^ 32 < Suc (length ws)"
    using assms by simp
  show ?thesis
    using nz small by (simp add: spatial_index_for_def reg BuildSpatialIndex_def)
qed

lemma unat_chunk_SPACECODE_MAX:
  assumes "1 \<le> n" and "n < 2 ^ 32"
  shows "unat ((SPACECODE_MAX + 1) div of_nat n + 1 :: 64 word) = (unat SPACECODE_MAX + 1) div n + 1"
proof -
  have n64: "unat (of_nat n :: 64 word) = n"
    using assms by (simp add: unat_of_nat)
  have s: "unat (SPACECODE_MAX + 1) = 2 ^ 63" and s': "unat SPACECODE_MAX = 2 ^ 63 - 1"
    by (simp_all add: SPACECODE_MAX_def)
  have q: "unat ((SPACECODE_MAX + 1) div of_nat n :: 64 word) = 2 ^ 63 div n"
    by (simp add: unat_div n64 s)
  have "(2 ^ 63 :: nat) div n < 2 ^ 64 - 1"
    by (rule le_less_trans [OF div_le_dividend]) simp
  then have "unat ((SPACECODE_MAX + 1) div of_nat n :: 64 word) + unat (1 :: 64 word) < 2 ^ 64"
    by (simp add: q)
  then have "unat ((SPACECODE_MAX + 1) div of_nat n + 1 :: 64 word)
               = unat ((SPACECODE_MAX + 1) div of_nat n :: 64 word) + unat (1 :: 64 word)"
    using unat_add_lem [of "(SPACECODE_MAX + 1) div of_nat n :: 64 word" 1] by simp
  then show ?thesis by (simp add: q s')
qed

text \<open>
  C3, as the code has it.  With \<open>n\<close> workers registered (\<open>1 \<le> n\<close>),
  \<open>BuildSpatialIndex\<close> records the worker ids \<open>1, \<dots>, n\<close> in increasing order and
  sets the chunk size to the quotient of \<open>SPACECODE_MAX + 1\<close> by \<open>n\<close>, rounded down,
  plus one.  That is the ceiling of the quotient exactly when \<open>n\<close> does not divide
  \<open>SPACECODE_MAX + 1\<close>, and one more than the ceiling when it does.
\<close>

theorem BuildSpatialIndex_chunk_floor_plus_one:
  "1 \<le> length ws \<Longrightarrow> length ws < 2 ^ 32 - 1 \<Longrightarrow>
   (\<exists>lib. spatial_index_for S ws = Inr lib \<and>
      spatial_index lib = map of_nat [1..<Suc (length ws)] \<and>
      chunk_size lib = (S + 1) div of_nat (length ws) + 1) \<and>
   (\<exists>lib. spatial_index_for SPACECODE_MAX ws = Inr lib \<and>
      unat (chunk_size lib) = (unat SPACECODE_MAX + 1) div length ws + 1 \<and>
      ((unat (chunk_size lib) = ceil_div (unat SPACECODE_MAX + 1) (length ws))
         = (\<not> length ws dvd unat SPACECODE_MAX + 1)))"
proof -
  assume a: "1 \<le> length ws" "length ws < 2 ^ 32 - 1"
  then have b: "length ws < 2 ^ 32" "0 < length ws" by auto
  show ?thesis
    using floor_succ_is_ceiling_iff [OF b(2), of "unat SPACECODE_MAX + 1"]
    by (simp add: spatial_index_for_registered [OF a] unat_chunk_SPACECODE_MAX [OF a(1) b(1)])
qed

theorem BuildSpatialIndex_chunk_floor_plus_one_witness:
  "1 \<le> length [(), (), ()] \<and> length [(), (), ()] < (2 :: nat) ^ 32 - 1 \<and>
   spatial_index_for SPACECODE_MAX [(), (), ()]
     = Inr (Library_new\<lparr>nodes := [None, Some (), Some (), Some ()],
                        spatial_index := [1, 2, 3],
                        chunk_size := 3074457345618258603\<rparr>) \<and>
   ceil_div (unat SPACECODE_MAX + 1) 3 = 3074457345618258603"
  using BuildSpatialIndex_chunk_floor_plus_one [of "[(), (), ()]" SPACECODE_MAX]
  by (simp add: spatial_index_for_def StoreNetNode_def store_slot_def resize_def Let_def
      BuildSpatialIndex_def Library_new_def SPACECODE_MAX_def ceil_div_def upt_rec)

text \<open>
  The chunk size is not the ceiling for every worker count: with one worker it is
  \<open>2 ^ 63 + 1\<close>, and the ceiling of \<open>(SPACECODE_MAX + 1) / 1\<close> is \<open>2 ^ 63\<close>.
\<close>

theorem BuildSpatialIndex_chunk_not_ceiling:
  "spatial_index_for SPACECODE_MAX [()]
     = Inr (Library_new\<lparr>nodes := [None, Some ()], spatial_index := [1],
                        chunk_size := 2 ^ 63 + 1\<rparr>) \<and>
   ceil_div (unat SPACECODE_MAX + 1) 1 = 2 ^ 63 \<and>
   unat (2 ^ 63 + 1 :: 64 word) \<noteq> ceil_div (unat SPACECODE_MAX + 1) 1"
  by (simp add: spatial_index_for_def StoreNetNode_def store_slot_def resize_def Let_def
      BuildSpatialIndex_def Library_new_def SPACECODE_MAX_def ceil_div_def)

section \<open>Properties of the coordinator\<close>

subsection \<open>The loop over the nodes\<close>

lemma ForEachNetNode_local_upto:
  "k \<le> length ns \<Longrightarrow>
   fold (\<lambda>i (ns', a').
             case ns' ! i of
               None \<Rightarrow> (ns', a')
             | Some node \<Rightarrow> (case (f (of_nat i) node, a') of
                              (node', a'') \<Rightarrow> (ns'[i := Some node'], a'')))
        [1..<k] (ns, u)
   = (map (\<lambda>i. if 1 \<le> i \<and> i < k then map_option (f (of_nat i)) (ns ! i) else ns ! i)
        [0..<length ns], u)"
proof (induction k)
  case 0
  show ?case by (simp add: map_nth)
next
  case (Suc k)
  show ?case
  proof (cases "k = 0")
    case True
    then show ?thesis by (auto intro!: nth_equalityI)
  next
    case False
    then have upt: "[1..<Suc k] = [1..<k] @ [k]" by simp
    from Suc.prems have k: "k < length ns" by simp
    let ?m = "map (\<lambda>i. if 1 \<le> i \<and> i < k then map_option (f (of_nat i)) (ns ! i) else ns ! i)
        [0..<length ns]"
    have mk: "?m ! k = ns ! k" using k by simp
    have upd: "\<And>x. ?m[k := Some (f (of_nat k) x)] =
       map (\<lambda>i. if 1 \<le> i \<and> i < Suc k then (if i = k then Some (f (of_nat k) x) else map_option (f (of_nat i)) (ns ! i)) else ns ! i)
        [0..<length ns]"
      using k False by (intro nth_equalityI) (auto simp: nth_list_update)
    show ?thesis
      using Suc.IH k False
      apply (simp only: upt fold_append comp_def)
      apply (simp add: mk upd split: option.splits)
      apply (intro conjI impI allI)
       apply (auto intro!: nth_equalityI simp: less_Suc_eq)
      done
  qed
qed

lemma ForEachNetNode_local:
  "fst (ForEachNetNode (\<lambda>ident node u. (f ident node, u)) ns ())
   = map (\<lambda>i. if 1 \<le> i then map_option (f (of_nat i)) (ns ! i) else ns ! i) [0..<length ns]"
  using ForEachNetNode_local_upto [of "length ns" ns f "()"]
  by (simp add: ForEachNetNode_def cong: map_cong)

lemma ForEachNetNode_readonly_upto:
  "k \<le> length ns \<Longrightarrow>
   fold (\<lambda>i (ns', a').
             case ns' ! i of
               None \<Rightarrow> (ns', a')
             | Some node \<Rightarrow> (case (node, g (of_nat i) node a') of
                              (node', a'') \<Rightarrow> (ns'[i := Some node'], a'')))
        [1..<k] (ns, a)
   = (ns, fold (\<lambda>i a'. case ns ! i of None \<Rightarrow> a' | Some node \<Rightarrow> g (of_nat i) node a') [1..<k] a)"
proof (induction k)
  case 0
  show ?case by simp
next
  case (Suc k)
  show ?case
  proof (cases "k = 0")
    case True
    then show ?thesis by simp
  next
    case False
    then have upt: "[1..<Suc k] = [1..<k] @ [k]" by simp
    show ?thesis
      using Suc.IH Suc.prems
      by (simp only: upt fold_append comp_def) (auto split: option.splits simp: list_update_same_conv)
  qed
qed


lemma ForEachNetNode_readonly:
  "ForEachNetNode (\<lambda>ident node a. (node, g ident node a)) ns a
   = (ns, fold (\<lambda>i a'. case ns ! i of None \<Rightarrow> a' | Some node \<Rightarrow> g (of_nat i) node a') [1..<length ns] a)"
  using ForEachNetNode_readonly_upto [of "length ns" ns g a]
  by (simp add: ForEachNetNode_def)

lemma get_node_for_each_node:
  "get_node (for_each_node f s) i =
     (if 1 \<le> i then map_option (f (of_nat i)) (get_node s i) else get_node s i)"
  by (simp add: get_node_def for_each_node_def set_nodes_def ForEachNetNode_local)

lemma for_each_node_other:
  "for_each_node f s = s\<lparr>library := (library s)\<lparr>nodes := nodes (library (for_each_node f s))\<rparr>\<rparr>"
  by (simp add: for_each_node_def set_nodes_def)

lemma length_nodes_for_each_node:
  "length (nodes (library (for_each_node f s))) = length (nodes (library s))"
  by (simp add: for_each_node_def set_nodes_def ForEachNetNode_local)

lemma fold_upt_Suc: "Suc 0 \<le> k \<Longrightarrow> fold F [Suc 0..<Suc k] a = F k (fold F [Suc 0..<k] a)"
  by simp

lemma fold_done:
  "fold (\<lambda>i a'. case ns ! i of None \<Rightarrow> a' | Some node \<Rightarrow> a' \<and> \<not> P node) [Suc 0..<k] d
   = (d \<and> (\<forall>i node. Suc 0 \<le> i \<and> i < k \<and> ns ! i = Some node \<longrightarrow> \<not> P node))"
proof (induction k)
  case 0
  show ?case by simp
next
  case (Suc k)
  show ?case
  proof (cases "k = 0")
    case True
    then show ?thesis by simp
  next
    case False
    then have k: "Suc 0 \<le> k" by simp
    show ?thesis
    proof (cases "ns ! k")
      case None
      then have "(\<forall>i node. Suc 0 \<le> i \<and> i < Suc k \<and> ns ! i = Some node \<longrightarrow> \<not> P node)
                = (\<forall>i node. Suc 0 \<le> i \<and> i < k \<and> ns ! i = Some node \<longrightarrow> \<not> P node)"
        by (auto simp: less_Suc_eq)
      with None Suc.IH show ?thesis
        by (simp only: fold_upt_Suc [OF k]) simp
    next
      case (Some x)
      then have "(\<forall>i node. Suc 0 \<le> i \<and> i < Suc k \<and> ns ! i = Some node \<longrightarrow> \<not> P node)
                = ((\<forall>i node. Suc 0 \<le> i \<and> i < k \<and> ns ! i = Some node \<longrightarrow> \<not> P node) \<and> \<not> P x)"
        using k by (auto simp: less_Suc_eq)
      with Some Suc.IH show ?thesis
        by (simp only: fold_upt_Suc [OF k]) auto
    qed
  qed
qed

lemma fold_slowest:
  "fold (\<lambda>i sl. case ns ! i of None \<Rightarrow> sl
               | Some node \<Rightarrow> if less_slowest (pr node) sl then Some (pr node) else sl) [Suc 0..<k] None
   = (if {node. \<exists>i. Suc 0 \<le> i \<and> i < k \<and> ns ! i = Some node} = {} then None
      else Some (Min (pr ` {node. \<exists>i. Suc 0 \<le> i \<and> i < k \<and> ns ! i = Some node})))"
proof (induction k)
  case 0
  show ?case by simp
next
  case (Suc k)
  let ?S = "\<lambda>k. {node. \<exists>i. Suc 0 \<le> i \<and> i < k \<and> ns ! i = Some node}"
  have fin: "finite (?S k)" for k
  proof -
    have "?S k \<subseteq> (\<lambda>i. the (ns ! i)) ` {0..<k}" by force
    then show ?thesis by (rule finite_subset) simp
  qed
  show ?case
  proof (cases "k = 0")
    case True
    then show ?thesis by simp
  next
    case False
    then have k: "Suc 0 \<le> k" by simp
    show ?thesis
    proof (cases "ns ! k")
      case None
      then have "?S (Suc k) = ?S k" by (auto simp: less_Suc_eq)
      with None Suc.IH show ?thesis by (simp only: fold_upt_Suc [OF k]) simp
    next
      case (Some node)
      have S: "?S (Suc k) = insert node (?S k)"
      proof
        show "?S (Suc k) \<subseteq> insert node (?S k)" using Some by (auto simp: less_Suc_eq)
        show "insert node (?S k) \<subseteq> ?S (Suc k)" using Some k by (auto simp: less_Suc_eq)
      qed
      show ?thesis
      proof (cases "?S k = {}")
        case True
        with Suc.IH Some S show ?thesis
          by (simp only: fold_upt_Suc [OF k]) (simp add: less_slowest_def)
      next
        case False
        have "Min (pr ` insert node (?S k)) = min (pr node) (Min (pr ` ?S k))"
          using fin [of k] False by simp
        with Suc.IH Some S False show ?thesis
          by (simp only: fold_upt_Suc [OF k]) (auto simp: less_slowest_def min_def)
      qed
    qed
  qed
qed


lemma set_somes: "set (somes xs) = {x. Some x \<in> set xs}"
  by (induction xs rule: somes.induct) auto

lemma set_net_nodes:
  "set (net_nodes ns) = {node. \<exists>i. Suc 0 \<le> i \<and> i < length ns \<and> ns ! i = Some node}"
proof -
  have "set (tl ns) = {ns ! i |i. Suc 0 \<le> i \<and> i < length ns}"
  proof (cases ns)
    case Nil
    then show ?thesis by simp
  next
    case (Cons a as)
    have "set as = {as ! j |j. j < length as}" by (simp add: set_conv_nth)
    also have "\<dots> = {(a # as) ! i |i. Suc 0 \<le> i \<and> i < length (a # as)}"
    proof (intro set_eqI iffI)
      fix x assume "x \<in> {as ! j |j. j < length as}"
      then obtain j where "j < length as" "x = as ! j" by auto
      then have "Suc 0 \<le> Suc j \<and> Suc j < length (a # as) \<and> x = (a # as) ! Suc j" by simp
      then show "x \<in> {(a # as) ! i |i. Suc 0 \<le> i \<and> i < length (a # as)}" by blast
    next
      fix x assume "x \<in> {(a # as) ! i |i. Suc 0 \<le> i \<and> i < length (a # as)}"
      then obtain i where i: "Suc 0 \<le> i" "i < length (a # as)" "x = (a # as) ! i" by auto
      then obtain j where "i = Suc j" by (cases i) auto
      with i have "j < length as \<and> x = as ! j" by simp
      then show "x \<in> {as ! j |j. j < length as}" by blast
    qed
    finally show ?thesis by (simp add: Cons)
  qed
  then show ?thesis by (auto simp: net_nodes_def set_somes)
qed

lemma done_iff:
  "snd (ForEachNetNode (\<lambda>ident node done. (node, done \<and> \<not> P node)) ns True)
   = list_all (\<lambda>node. \<not> P node) (net_nodes ns)"
  by (simp add: ForEachNetNode_readonly fold_done list_all_iff set_net_nodes) blast

lemma find_slowest_Min:
  "find_slowest ns =
     (if net_nodes ns = [] then None else Some (Min (Progress ` set (net_nodes ns))))"
proof -
  have e: "(net_nodes ns = []) = (set (net_nodes ns) = {})" by simp
  have "find_slowest ns =
          fold (\<lambda>i sl. case ns ! i of None \<Rightarrow> sl
                       | Some node \<Rightarrow> if less_slowest (Progress node) sl
                                       then Some (Progress node) else sl)
            [Suc 0..<length ns] None"
    by (simp add: find_slowest_def ForEachNetNode_readonly)
  also note fold_slowest
  finally show ?thesis by (simp only: e set_net_nodes)
qed

lemma get_node_in_net_nodes:
  "Suc 0 \<le> i \<Longrightarrow> get_node s i = Some node \<Longrightarrow> node \<in> set (net_nodes (nodes (library s)))"
  by (auto simp: get_node_def set_net_nodes split: if_splits)

lemma net_nodes_get_node:
  "node \<in> set (net_nodes (nodes (library s))) \<Longrightarrow> \<exists>i. Suc 0 \<le> i \<and> get_node s i = Some node"
  by (auto simp: get_node_def set_net_nodes)

subsection \<open>The payload of RENDER\_START\<close>

lemma push_bit_16_scast:
  "push_bit 16 (scast w :: 32 word) = push_bit 16 (ucast w)" for w :: "16 word"
proof (rule bit_word_eqI)
  fix n assume n: "n < LENGTH(32)"
  show "bit (push_bit 16 (scast w :: 32 word)) n = bit (push_bit 16 (ucast w :: 32 word)) n"
  proof (cases "16 \<le> n")
    case True
    with n have "n - 16 < 16" by simp
    then have "min 15 (n - 16) = n - 16" by simp
    with True n show ?thesis by (simp add: bit_simps)
  next
    case False
    then show ?thesis by (simp add: bit_simps)
  qed
qed

lemma unat_ucast_16_32: "unat (ucast w :: 32 word) = unat w" for w :: "16 word"
proof -
  have "unat w < 2 ^ 16" using unsigned_less [of w] by simp
  then have "unat w < 2 ^ 32" by simp
  then show ?thesis by (simp add: unsigned_ucast_eq take_bit_nat_eq_self)
qed

lemma unat_ucast_32_16: "unat x < 2 ^ 16 \<Longrightarrow> unat (ucast x :: 16 word) = unat x" for x :: "32 word"
  by (simp add: unsigned_ucast_eq take_bit_nat_eq_self)

lemma payload_decode:
  "drop_bit 16 (push_bit 16 (ucast a :: 32 word) OR ucast b) = ucast a \<and>
   take_bit 16 (push_bit 16 (ucast a :: 32 word) OR ucast b) = ucast b" for a b :: "16 word"
proof -
  have nb: "\<not> bit b m" if "16 \<le> m" for m
    using bit_imp_le_length [of b m] that by auto
  have na: "\<not> bit a m" if "16 \<le> m" for m
    using bit_imp_le_length [of a m] that by auto
  have la: "m < 16" if "bit a m" for m
    using bit_imp_le_length [of a m] that by auto
  show ?thesis
    by (auto intro!: bit_word_eqI simp: bit_simps nb na not_less la)
qed

lemma unat_payload:
  "unat (push_bit 16 (ucast a :: 32 word) OR ucast b) = unat a * 2 ^ 16 + unat b" for a b :: "16 word"
proof -
  let ?x = "push_bit 16 (ucast a :: 32 word) OR ucast b"
  have d: "unat (drop_bit 16 ?x) = unat a" and t: "unat (take_bit 16 ?x) = unat b"
    using payload_decode [of a b] by (simp_all add: unat_ucast_16_32)
  have "unat ?x = unat ?x div 2 ^ 16 * 2 ^ 16 + unat ?x mod 2 ^ 16" by simp
  also have "unat ?x div 2 ^ 16 = unat (drop_bit 16 ?x)"
    by (simp add: drop_bit_eq_div unat_div)
  also have "unat ?x mod 2 ^ 16 = unat (take_bit 16 ?x)"
    by (simp add: take_bit_eq_mod unat_mod)
  finally show ?thesis by (simp only: d t)
qed

lemma render_vars:
  fixes cfg :: "'p Config"
  assumes n1: "1 \<le> length (workers cfg)" and nW: "length (workers cfg) \<le> unat (width cfg)"
    and k1: "1 \<le> unat ident" and kn: "unat ident \<le> length (workers cfg)"
  shows "unat (render_offset cfg ident)
           = (unat ident - 1) * (unat (width cfg) div length (workers cfg))"
    and "unat (render_chunk_size cfg ident)
           = (if unat ident = length (workers cfg)
              then unat (width cfg)
                     - (length (workers cfg) - 1) * (unat (width cfg) div length (workers cfg))
              else unat (width cfg) div length (workers cfg))"
proof -
  define W n q k where "W = unat (width cfg)" and "n = length (workers cfg)"
    and "q = W div n" and "k = unat ident"
  note defs = W_def n_def q_def k_def
  have W16: "W < 2 ^ 16" using unsigned_less [of "width cfg"] by (simp add: W_def)
  have q_le: "q \<le> W" by (simp add: q_def)
  have kq_le: "(k - 1) * q \<le> W"
  proof -
    have "(k - 1) * q \<le> n * q" using kn by (intro mult_le_mono1) (simp add: defs)
    also have "\<dots> \<le> W" by (simp add: q_def)
    finally show ?thesis .
  qed
  have q16: "q < 2 ^ 16" using W16 q_le by simp
  have chunk0: "unat (render_chunk_size0 cfg) = q"
    unfolding render_chunk_size0_def W_def [symmetric] n_def [symmetric] q_def [symmetric]
    using q16 by (simp add: unat_of_nat)
  have prod32: "unat ((ident - 1) * ucast (render_chunk_size0 cfg) :: 32 word) = (k - 1) * q"
  proof -
    have nz: "ident \<noteq> 0" using k1 by (auto simp: unat_0_iff)
    have a: "unat (ident - 1) = k - 1" using nz by (simp add: unat_minus_one k_def)
    have b: "unat (ucast (render_chunk_size0 cfg) :: 32 word) = q"
      by (simp add: unat_ucast_16_32 chunk0)
    have "unat (ident - 1) * unat (ucast (render_chunk_size0 cfg) :: 32 word) < 2 ^ 32"
      using kq_le W16 by (simp add: a b)
    then show ?thesis using a b by (simp add: unat_mult_lem [THEN iffD1])
  qed
  show "unat (render_offset cfg ident)
           = (unat ident - 1) * (unat (width cfg) div length (workers cfg))"
    using kq_le W16 by (simp add: render_offset_def unat_ucast_32_16 prod32) (simp add: defs)
  show "unat (render_chunk_size cfg ident)
           = (if unat ident = length (workers cfg)
              then unat (width cfg)
                     - (length (workers cfg) - 1) * (unat (width cfg) div length (workers cfg))
              else unat (width cfg) div length (workers cfg))"
  proof (cases "k = n")
    case False
    then show ?thesis by (simp add: render_chunk_size_def chunk0) (simp add: defs)
  next
    case True
    have w: "unat (ucast (width cfg) :: 32 word) = W" by (simp add: unat_ucast_16_32 W_def)
    have le: "(ident - 1) * ucast (render_chunk_size0 cfg) \<le> (ucast (width cfg) :: 32 word)"
      using kq_le by (simp add: word_le_nat_alt prod32 w)
    have "unat ((ucast (width cfg) :: 32 word) - (ident - 1) * ucast (render_chunk_size0 cfg))
            = W - (k - 1) * q"
      using le by (simp add: unat_sub prod32 w)
    then show ?thesis using True W16
      by (simp add: render_chunk_size_def unat_ucast_32_16) (simp add: defs)
  qed
qed

lemma tiling_nat:
  fixes n W x :: nat
  assumes n1: "1 \<le> n" and nW: "n \<le> W" and x: "x < W"
  shows "\<exists>!k. 1 \<le> k \<and> k \<le> n \<and> (k - 1) * (W div n) \<le> x \<and>
              x < (k - 1) * (W div n) + (if k = n then W - (n - 1) * (W div n) else W div n)"
proof -
  define q where "q = W div n"
  have q1: "1 \<le> q" using n1 nW by (simp add: q_def div_greater_zero_iff Suc_le_eq)
  have nq: "n * q \<le> W" by (simp add: q_def)
  have last: "(n - 1) * q \<le> W"
  proof -
    have "(n - 1) * q \<le> n * q" by (intro mult_le_mono1) simp
    then show ?thesis using nq by (rule le_trans)
  qed
  let ?P = "\<lambda>k. 1 \<le> k \<and> k \<le> n \<and> (k - 1) * q \<le> x \<and>
              x < (k - 1) * q + (if k = n then W - (n - 1) * q else q)"
  have ex: "\<exists>k. ?P k"
  proof (cases "x < (n - 1) * q")
    case True
    define k where "k = x div q + 1"
    have "x div q < n - 1" using True q1 by (simp add: less_mult_imp_div_less)
    then have kn: "k < n" "1 \<le> k" by (simp_all add: k_def)
    have lo: "(k - 1) * q \<le> x" by (simp add: k_def)
    have "x < (x div q + 1) * q"
      using q1 by (metis Suc_eq_plus1 Suc_le_lessD One_nat_def dividend_less_times_div mult.commute add.commute mult_Suc)
    then have hi: "x < (k - 1) * q + q" by (simp add: k_def)
    from kn lo hi have "?P k" by simp
    then show ?thesis ..
  next
    case False
    then have "(n - 1) * q \<le> x" by simp
    with x last n1 have "?P n" by simp
    then show ?thesis ..
  qed
  have uniq: "False" if a: "?P k" and b: "?P k'" and lt: "k < k'" for k k'
  proof -
    from a b lt have "k \<noteq> n" by simp
    with a have "x < (k - 1) * q + q" by simp
    also have "\<dots> = k * q" using a by (cases k) simp_all
    also have "\<dots> \<le> (k' - 1) * q" using lt by (intro mult_le_mono1) simp
    also have "\<dots> \<le> x" using b by simp
    finally show False by simp
  qed
  have "\<exists>!k. ?P k"
  proof (rule ex_ex1I [OF ex])
    fix k k' assume a: "?P k" and b: "?P k'"
    show "k = k'"
    proof (rule ccontr)
      assume "k \<noteq> k'"
      then consider "k < k'" | "k' < k" by linarith
      then show False
      proof cases
        case 1 with uniq [OF a b] show False by simp
      next
        case 2 with uniq [OF b a] show False by simp
      qed
    qed
  qed
  then show ?thesis by (simp only: q_def)
qed


lemma unat_of_nat_id32: "k < 2 ^ 32 \<Longrightarrow> unat (of_nat k :: 32 word) = k"
  by (simp add: unat_of_nat)

lemma nodes_for_each_node:
  "nodes (library (for_each_node f s))
   = map (\<lambda>i. if Suc 0 \<le> i then map_option (f (of_nat i)) (nodes (library s) ! i)
                else nodes (library s) ! i) [0..<length (nodes (library s))]"
  by (simp add: for_each_node_def set_nodes_def ForEachNetNode_local)

lemma StartRender_node:
  "workers (config s) \<noteq> [] \<Longrightarrow> Suc 0 \<le> k \<Longrightarrow> get_node s k = Some node \<Longrightarrow>
   \<exists>s'. StartRender s = Inr s' \<and>
        get_node s' k = Some ((Send (RENDER_START_request (config s) (of_nat k)) node)\<lparr>state := RENDERING\<rparr>)"
  by (auto simp: StartRender_def nodes_for_each_node get_node_def split: if_splits)

text \<open>
  C2.  Let the image be \<open>W\<close> pixels wide and let there be \<open>n\<close> configured workers,
  \<open>1 \<le> n \<le> W\<close> (the width is a 16-bit value, so \<open>W \<le> 65535\<close>).  For the worker with
  id \<open>k\<close> in \<open>1..n\<close> the callback of \<open>StartRender\<close> computes the offset
  \<open>(k - 1) * (W div n)\<close> and the chunk size \<open>W div n\<close>, or \<open>W - (n - 1) * (W div n)\<close> for
  the last worker; the payload is the offset in the upper and the chunk size in the lower
  16 bits of a 32-bit word.  Every column \<open>x < W\<close> lies in the slab of exactly one
  worker.  \<open>StartRender\<close> sends each worker that payload in a RENDER\_START message of
  four bytes, puts it in state RENDERING and starts both monitors.
\<close>

theorem image_slab_partition:
  fixes cfg :: "'p Config"
  assumes n1: "1 \<le> length (workers cfg)" and nW: "length (workers cfg) \<le> unat (width cfg)"
  shows "(\<forall>k. 1 \<le> k \<and> k \<le> length (workers cfg) \<longrightarrow>
            unat (render_offset cfg (of_nat k))
              = (k - 1) * (unat (width cfg) div length (workers cfg)) \<and>
            unat (render_chunk_size cfg (of_nat k))
              = (if k = length (workers cfg)
                 then unat (width cfg)
                        - (length (workers cfg) - 1) * (unat (width cfg) div length (workers cfg))
                 else unat (width cfg) div length (workers cfg)) \<and>
            unat (render_payload cfg (of_nat k))
              = unat (render_offset cfg (of_nat k)) * 2 ^ 16 + unat (render_chunk_size cfg (of_nat k)) \<and>
            drop_bit 16 (render_payload cfg (of_nat k)) = ucast (render_offset cfg (of_nat k)) \<and>
            take_bit 16 (render_payload cfg (of_nat k)) = ucast (render_chunk_size cfg (of_nat k))) \<and>
         (\<forall>x<unat (width cfg).
            \<exists>!k. 1 \<le> k \<and> k \<le> length (workers cfg) \<and>
                 unat (render_offset cfg (of_nat k)) \<le> x \<and>
                 x < unat (render_offset cfg (of_nat k)) + unat (render_chunk_size cfg (of_nat k))) \<and>
         (\<forall>s k node. config s = cfg \<and> 1 \<le> k \<and> get_node s k = Some node \<longrightarrow>
            (\<exists>s'. StartRender s = Inr s' \<and> interesting_timer s' \<and> runaway_timer s' \<and>
                  get_node s' k
                    = Some ((Send \<lparr>msg_kind = Kind_RENDER_START, msg_size = 4,
                                   msg_body = u32_bytes (render_payload cfg (of_nat k))\<rparr> node)
                            \<lparr>state := RENDERING\<rparr>)))"
proof (intro conjI allI impI)
  have W16: "unat (width cfg) < 2 ^ 16" using unsigned_less [of "width cfg"] by simp
  have vars: "unat (render_offset cfg (of_nat k))
              = (k - 1) * (unat (width cfg) div length (workers cfg)) \<and>
            unat (render_chunk_size cfg (of_nat k))
              = (if k = length (workers cfg)
                 then unat (width cfg)
                        - (length (workers cfg) - 1) * (unat (width cfg) div length (workers cfg))
                 else unat (width cfg) div length (workers cfg))"
    if k: "1 \<le> k \<and> k \<le> length (workers cfg)" for k
  proof -
    from k nW W16 have "k < 2 ^ 32" by simp
    then have u: "unat (of_nat k :: 32 word) = k" by (rule unat_of_nat_id32)
    from render_vars [OF n1 nW, of "of_nat k"] k show ?thesis by (simp add: u)
  qed
  {
    fix k assume k: "1 \<le> k \<and> k \<le> length (workers cfg)"
    from vars [OF k]
    show "unat (render_offset cfg (of_nat k))
              = (k - 1) * (unat (width cfg) div length (workers cfg))"
      and "unat (render_chunk_size cfg (of_nat k))
              = (if k = length (workers cfg)
                 then unat (width cfg)
                        - (length (workers cfg) - 1) * (unat (width cfg) div length (workers cfg))
                 else unat (width cfg) div length (workers cfg))"
      by simp_all
    show "unat (render_payload cfg (of_nat k))
              = unat (render_offset cfg (of_nat k)) * 2 ^ 16 + unat (render_chunk_size cfg (of_nat k))"
      by (simp only: render_payload_def push_bit_16_scast unat_payload)
    show "drop_bit 16 (render_payload cfg (of_nat k)) = ucast (render_offset cfg (of_nat k))"
      by (simp only: render_payload_def push_bit_16_scast payload_decode)
    show "take_bit 16 (render_payload cfg (of_nat k)) = ucast (render_chunk_size cfg (of_nat k))"
      by (simp only: render_payload_def push_bit_16_scast payload_decode)
  }
  {
    fix x assume x: "x < unat (width cfg)"
    let ?Q = "\<lambda>k. 1 \<le> k \<and> k \<le> length (workers cfg) \<and>
         (k - 1) * (unat (width cfg) div length (workers cfg)) \<le> x \<and>
         x < (k - 1) * (unat (width cfg) div length (workers cfg)) +
             (if k = length (workers cfg)
              then unat (width cfg)
                     - (length (workers cfg) - 1) * (unat (width cfg) div length (workers cfg))
              else unat (width cfg) div length (workers cfg))"
    let ?P = "\<lambda>k. 1 \<le> k \<and> k \<le> length (workers cfg) \<and>
                 unat (render_offset cfg (of_nat k)) \<le> x \<and>
                 x < unat (render_offset cfg (of_nat k)) + unat (render_chunk_size cfg (of_nat k))"
    have eq: "?P k = ?Q k" for k
    proof (cases "1 \<le> k \<and> k \<le> length (workers cfg)")
      case True
      from vars [OF True] show ?thesis by simp
    next
      case False
      then show ?thesis by auto
    qed
    from tiling_nat [OF n1 nW x] have "\<exists>!k. ?Q k" .
    then show "\<exists>!k. ?P k" by (simp only: eq)
  }
  {
    fix s :: "'p engine" and k node
    assume a: "config s = cfg \<and> 1 \<le> k \<and> get_node s k = Some node"
    with n1 have "workers (config s) \<noteq> []" by auto
    with a show "\<exists>s'. StartRender s = Inr s' \<and> interesting_timer s' \<and> runaway_timer s' \<and>
                  get_node s' k
                    = Some ((Send \<lparr>msg_kind = Kind_RENDER_START, msg_size = 4,
                                   msg_body = u32_bytes (render_payload cfg (of_nat k))\<rparr> node)
                            \<lparr>state := RENDERING\<rparr>)"
      by (auto simp: StartRender_def nodes_for_each_node get_node_def RENDER_START_request_def
          split: if_splits)
  }
qed

theorem image_slab_partition_witness:
  "unat (render_offset \<lparr>workers = [''a'', ''b'', ''c''], width = 641, runaway = 0 :: int\<rparr> 3) = 426 \<and>
   unat (render_chunk_size \<lparr>workers = [''a'', ''b'', ''c''], width = 641, runaway = 0 :: int\<rparr> 3) = 215 \<and>
   unat (render_payload \<lparr>workers = [''a'', ''b'', ''c''], width = 641, runaway = 0 :: int\<rparr> 3)
     = 426 * 2 ^ 16 + 215 \<and>
   unat (render_payload \<lparr>workers = [''a'', ''b'', ''c''], width = 641, runaway = 0 :: int\<rparr> 2)
     = 213 * 2 ^ 16 + 213 \<and>
   unat (render_payload \<lparr>workers = [''a'', ''b'', ''c''], width = 641, runaway = 0 :: int\<rparr> 1) = 213"
proof -
  let ?cfg = "\<lparr>workers = [''a'', ''b'', ''c''], width = 641, runaway = 0 :: int\<rparr>"
  have h1: "1 \<le> length (workers ?cfg)" by simp
  have h2: "length (workers ?cfg) \<le> unat (width ?cfg)" by simp
  from image_slab_partition [OF h1 h2]
  have all: "\<forall>k. 1 \<le> k \<and> k \<le> length (workers ?cfg) \<longrightarrow>
            unat (render_offset ?cfg (of_nat k))
              = (k - 1) * (unat (width ?cfg) div length (workers ?cfg)) \<and>
            unat (render_chunk_size ?cfg (of_nat k))
              = (if k = length (workers ?cfg)
                 then unat (width ?cfg)
                        - (length (workers ?cfg) - 1) * (unat (width ?cfg) div length (workers ?cfg))
                 else unat (width ?cfg) div length (workers ?cfg)) \<and>
            unat (render_payload ?cfg (of_nat k))
              = unat (render_offset ?cfg (of_nat k)) * 2 ^ 16 + unat (render_chunk_size ?cfg (of_nat k)) \<and>
            drop_bit 16 (render_payload ?cfg (of_nat k)) = ucast (render_offset ?cfg (of_nat k)) \<and>
            take_bit 16 (render_payload ?cfg (of_nat k)) = ucast (render_chunk_size ?cfg (of_nat k))"
    by (rule conjunct1)
  from all [rule_format, of 3] all [rule_format, of 2] all [rule_format, of 1]
  show ?thesis by simp
qed

subsection \<open>Phases of the render\<close>

lemma get_node_set_node:
  "get_node (set_node i node s) j =
     (if j = i \<and> i < length (nodes (library s)) then Some node else get_node s j)"
  by (simp add: get_node_def set_node_def set_nodes_def nth_list_update)

lemma nodes_set_node: "nodes (library (set_node i node s)) = (nodes (library s))[i := Some node]"
  by (simp add: set_node_def set_nodes_def)

lemma list_all_net_nodes_for_each:
  assumes "list_all Q (net_nodes (nodes (library s)))" and "\<And>i n. Q n \<Longrightarrow> P (f i n)"
  shows "list_all P (net_nodes (nodes (library (for_each_node f s))))"
  using assms
proof -
  have "P x" if x: "x \<in> set (net_nodes (nodes (library (for_each_node f s))))" for x
  proof -
    from x obtain i where i: "Suc 0 \<le> i" "i < length (nodes (library s))"
      and e: "map_option (f (of_nat i)) (nodes (library s) ! i) = Some x"
      by (auto simp: set_net_nodes nodes_for_each_node)
    then obtain n where n: "nodes (library s) ! i = Some n" and fx: "x = f (of_nat i) n"
      by auto
    from i n have "n \<in> set (net_nodes (nodes (library s)))"
      by (auto simp: set_net_nodes)
    with assms(1) have "Q n" by (simp add: list_all_iff)
    with assms(2) fx show ?thesis by simp
  qed
  then show ?thesis by (simp add: list_all_iff)
qed

lemma list_all_net_nodes_set_node:
  assumes "list_all P (net_nodes (nodes (library s)))" and "P n'"
  shows "list_all P (net_nodes (nodes (library (set_node i n' s))))"
  using assms
proof -
  have "P x" if x: "x \<in> set (net_nodes (nodes (library (set_node i n' s))))" for x
  proof -
    from x obtain j where j: "Suc 0 \<le> j" "j < length (nodes (library s))"
      and e: "(nodes (library s))[i := Some n'] ! j = Some x"
      by (auto simp: set_net_nodes nodes_set_node)
    show ?thesis
    proof (cases "j = i")
      case True
      with j e assms(2) show ?thesis by simp
    next
      case False
      with j e have "x \<in> set (net_nodes (nodes (library s)))"
        by (auto simp: set_net_nodes)
      with assms(1) show ?thesis by (simp add: list_all_iff)
    qed
  qed
  then show ?thesis by (simp add: list_all_iff)
qed

lemma get_node_0_for_each: "get_node (for_each_node f s) 0 = get_node s 0"
  by (simp add: get_node_for_each_node)

lemma StopRender_node:
  "Suc 0 \<le> i \<Longrightarrow> get_node s i = Some node \<Longrightarrow>
   get_node (StopRender s) i
     = Some ((Send (Message_of_kind Kind_RENDER_STOP) node)\<lparr>state := SYNCING_IMAGES\<rparr>)"
  by (auto simp: StopRender_def nodes_for_each_node get_node_def split: if_splits)

lemma StopRender_fields:
  "\<not> interesting_timer (StopRender s) \<and> \<not> runaway_timer (StopRender s) \<and>
   stop_render_calls (StopRender s) = Suc (stop_render_calls s) \<and>
   get_node (StopRender s) 0 = get_node s 0"
  by (simp add: StopRender_def for_each_node_def set_nodes_def get_node_def ForEachNetNode_local)

lemma StopRender_stopped: "rendering_phase s \<Longrightarrow> stopped_phase (StopRender s)"
proof -
  assume r: "rendering_phase s"
  have "list_all (\<lambda>node. state node = SYNCING_IMAGES) (net_nodes (nodes (library (StopRender s))))"
    unfolding StopRender_def
    by (rule list_all_net_nodes_for_each [where Q = "\<lambda>n. True"]) (simp_all add: list_all_iff Send_def)
  with r StopRender_fields [of s] show ?thesis
    by (simp add: rendering_phase_def stopped_phase_def)
qed

lemma for_each_node_fields:
  "interesting_timer (for_each_node f s) = interesting_timer s"
  "runaway_timer (for_each_node f s) = runaway_timer s"
  "stop_render_calls (for_each_node f s) = stop_render_calls s"
  "max_intervals (for_each_node f s) = max_intervals s"
  "config (for_each_node f s) = config s"
  by (simp_all add: for_each_node_def set_nodes_def)

lemma set_node_fields:
  "interesting_timer (set_node i n s) = interesting_timer s"
  "runaway_timer (set_node i n s) = runaway_timer s"
  "stop_render_calls (set_node i n s) = stop_render_calls s"
  "max_intervals (set_node i n s) = max_intervals s"
  "config (set_node i n s) = config s"
  "image_stored (set_node i n s) = image_stored s"
  by (simp_all add: set_node_def set_nodes_def)

lemma OnRunawayTimeout_rendering:
  fixes s :: "'p::{linorder,plus,zero} engine"
  shows "rendering_phase s \<Longrightarrow> rendering_phase (OnRunawayTimeout s)"
proof -
  assume r: "rendering_phase s"
  let ?ok = "\<lambda>node :: 'p NetNode. state node = RENDERING \<or> state node = PAUSED"
  have "list_all ?ok (net_nodes (nodes (library (OnRunawayTimeout s))))"
    unfolding OnRunawayTimeout_def Let_def
    apply (rule list_all_net_nodes_for_each [where Q = ?ok])
    using r apply (simp add: rendering_phase_def)
    apply (auto simp: runaway_check_def Let_def Send_def)
    done
  moreover have "get_node (OnRunawayTimeout s) 0 = get_node s 0"
    unfolding OnRunawayTimeout_def Let_def by (rule get_node_0_for_each)
  moreover have "interesting_timer (OnRunawayTimeout s) = interesting_timer s"
    "runaway_timer (OnRunawayTimeout s) = runaway_timer s"
    "stop_render_calls (OnRunawayTimeout s) = stop_render_calls s"
    by (simp_all add: OnRunawayTimeout_def Let_def for_each_node_fields)
  ultimately show ?thesis using r by (simp add: rendering_phase_def)
qed

lemma phase_states:
  assumes "rendering_phase s \<or> stopped_phase s" and "get_node s i = Some node"
  shows "state node = RENDERING \<or> state node = PAUSED \<or> state node = SYNCING_IMAGES"
    and "Suc 0 \<le> i"
proof -
  from assms have z: "get_node s 0 = None"
    by (auto simp: rendering_phase_def stopped_phase_def)
  with assms(2) show i: "Suc 0 \<le> i" by (cases i) auto
  from get_node_in_net_nodes [OF i assms(2)] assms(1)
  show "state node = RENDERING \<or> state node = PAUSED \<or> state node = SYNCING_IMAGES"
    by (auto simp: rendering_phase_def stopped_phase_def list_all_iff)
qed

lemma phase_set_node:
  assumes "state n' = state node" and "get_node s i = Some node"
  shows "rendering_phase s \<Longrightarrow> rendering_phase (set_node i n' s)"
    and "stopped_phase s \<Longrightarrow> stopped_phase (set_node i n' s)"
proof -
  assume r: "rendering_phase s"
  then have z: "get_node s 0 = None" by (simp add: rendering_phase_def)
  with assms(2) have i: "Suc 0 \<le> i" by (cases i) auto
  from get_node_in_net_nodes [OF i assms(2)] r assms(1)
  have "state n' = RENDERING \<or> state n' = PAUSED"
    by (auto simp: rendering_phase_def list_all_iff)
  with r have "list_all (\<lambda>node. state node = RENDERING \<or> state node = PAUSED)
                 (net_nodes (nodes (library (set_node i n' s))))"
    by (intro list_all_net_nodes_set_node) (simp_all add: rendering_phase_def)
  with r i z show "rendering_phase (set_node i n' s)"
    by (simp add: rendering_phase_def set_node_fields get_node_set_node)
next
  assume r: "stopped_phase s"
  then have z: "get_node s 0 = None" by (simp add: stopped_phase_def)
  with assms(2) have i: "Suc 0 \<le> i" by (cases i) auto
  from get_node_in_net_nodes [OF i assms(2)] r assms(1)
  have "state n' = SYNCING_IMAGES"
    by (auto simp: stopped_phase_def list_all_iff)
  with r have "list_all (\<lambda>node. state node = SYNCING_IMAGES)
                 (net_nodes (nodes (library (set_node i n' s))))"
    by (intro list_all_net_nodes_set_node) (simp_all add: stopped_phase_def)
  with r i z show "stopped_phase (set_node i n' s)"
    by (simp add: stopped_phase_def set_node_fields get_node_set_node)
qed

lemma phase_library_eq:
  assumes "library s' = library s" "interesting_timer s' = interesting_timer s"
    "runaway_timer s' = runaway_timer s" "stop_render_calls s' = stop_render_calls s"
  shows "rendering_phase s' = rendering_phase s" and "stopped_phase s' = stopped_phase s"
  using assms by (simp_all add: rendering_phase_def stopped_phase_def get_node_def)


lemma OnOK_unexpected:
  assumes "get_node s i = Some node"
    and "state node = NONE \<or> state node = CONNECTED \<or> state node = READY \<or>
         state node = RENDERING \<or> state node = PAUSED \<or> state node = SYNCING_IMAGES \<or>
         state node = DONE"
  shows "OnOK i s = Inr (TERRLN (Line ''Received OK in unexpected state.'') s)"
  using assms by (auto simp: OnOK_def)

lemma TERRLN_phase:
  "rendering_phase (TERRLN l s) = rendering_phase s"
  "stopped_phase (TERRLN l s) = stopped_phase s"
  by (simp_all add: TERRLN_def rendering_phase_def stopped_phase_def get_node_def)

lemma get_node_updates:
  "get_node (s\<lparr>num_workers_complete := a\<rparr>) i = get_node s i"
  "get_node (s\<lparr>flush_timer := b\<rparr>) i = get_node s i"
  "get_node (s\<lparr>errlog := c\<rparr>) i = get_node s i"
  "get_node (s\<lparr>interesting_timer := b\<rparr>) i = get_node s i"
  "get_node (s\<lparr>runaway_timer := b\<rparr>) i = get_node s i"
  "get_node (s\<lparr>stop_render_calls := a\<rparr>) i = get_node s i"
  by (simp_all add: get_node_def)

lemma OnSyncImage_phase:
  assumes "OnSyncImage i s = Inr s'"
  shows "rendering_phase s \<Longrightarrow> rendering_phase s'" and "stopped_phase s \<Longrightarrow> stopped_phase s'"
proof -
  let ?s1 = "s\<lparr>num_workers_complete := Suc (num_workers_complete s)\<rparr>"
  let ?c = "for_each_node (\<lambda>ident node. node\<lparr>socket_closed := True\<rparr>) ?s1"
  from assms have s': "s' = ?s1 \<or> s' = ?c\<lparr>flush_timer := False\<rparr>"
    by (auto simp: OnSyncImage_def Let_def split: if_splits)
  have lib1: "library ?s1 = library s" by simp
  {
    assume r: "rendering_phase s"
    then have r1: "rendering_phase ?s1"
      by (simp add: rendering_phase_def get_node_updates)
    have "list_all (\<lambda>node. state node = RENDERING \<or> state node = PAUSED)
            (net_nodes (nodes (library ?c)))"
      by (rule list_all_net_nodes_for_each
                [where Q = "\<lambda>node. state node = RENDERING \<or> state node = PAUSED"])
         (use r1 in \<open>simp_all add: rendering_phase_def\<close>)
    with r1 have "rendering_phase (?c\<lparr>flush_timer := False\<rparr>)"
      by (simp add: rendering_phase_def for_each_node_fields get_node_updates get_node_0_for_each)
    with s' r1 show "rendering_phase s'" by auto
  }
  {
    assume r: "stopped_phase s"
    then have r1: "stopped_phase ?s1"
      by (simp add: stopped_phase_def get_node_updates)
    have "list_all (\<lambda>node. state node = SYNCING_IMAGES) (net_nodes (nodes (library ?c)))"
      by (rule list_all_net_nodes_for_each [where Q = "\<lambda>node. state node = SYNCING_IMAGES"])
         (use r1 in \<open>simp_all add: stopped_phase_def\<close>)
    with r1 have "stopped_phase (?c\<lparr>flush_timer := False\<rparr>)"
      by (simp add: stopped_phase_def for_each_node_fields get_node_updates get_node_0_for_each)
    with s' r1 show "stopped_phase s'" by auto
  }
qed

lemma DispatchMessage_phase:
  assumes d: "DispatchMessage parse i s = Inr s'"
  shows "rendering_phase s \<Longrightarrow> rendering_phase s'" and "stopped_phase s \<Longrightarrow> stopped_phase s'"
proof -
  have both: "(rendering_phase s \<longrightarrow> rendering_phase s') \<and> (stopped_phase s \<longrightarrow> stopped_phase s')"
  proof (cases "get_node s i")
    case None
    with d show ?thesis by (simp add: DispatchMessage_def)
  next
    case (Some node)
    show ?thesis
    proof (intro conjI impI)
      assume r: "rendering_phase s"
      then have ph: "rendering_phase s \<or> stopped_phase s" by simp
      note st = phase_states(1) [OF ph Some]
      consider (ok) "msg_kind (message node) = Kind_OK"
        | (stats) "msg_kind (message node) \<noteq> Kind_OK" "msg_kind (message node) = Kind_RENDER_STATS"
        | (image) "msg_kind (message node) \<noteq> Kind_OK" "msg_kind (message node) \<noteq> Kind_RENDER_STATS"
            "msg_kind (message node) = Kind_SYNC_IMAGE"
        | (other) "msg_kind (message node) \<noteq> Kind_OK" "msg_kind (message node) \<noteq> Kind_RENDER_STATS"
            "msg_kind (message node) \<noteq> Kind_SYNC_IMAGE"
        by blast
      then show "rendering_phase s'"
      proof cases
        case ok
        with d Some have "OnOK i s = Inr s'" by (simp add: DispatchMessage_def)
        moreover have "OnOK i s = Inr (TERRLN (Line ''Received OK in unexpected state.'') s)"
          using st by (intro OnOK_unexpected [OF Some]) auto
        ultimately show ?thesis using r by (auto simp: TERRLN_phase)
      next
        case stats
        with d Some have "s' = set_node i (ReceiveRenderStats parse node) s"
          by (simp add: DispatchMessage_def OnRenderStats_def)
        with r Some show ?thesis
          by (simp add: phase_set_node(1) [where node = node] ReceiveRenderStats_def)
      next
        case image
        with d Some have osi: "OnSyncImage i s = Inr s'" by (simp add: DispatchMessage_def)
        show ?thesis by (rule OnSyncImage_phase(1) [OF osi r])
      next
        case other
        with d Some r show ?thesis by (auto simp: DispatchMessage_def TERRLN_phase)
      qed
    next
      assume r: "stopped_phase s"
      then have ph: "rendering_phase s \<or> stopped_phase s" by simp
      note st = phase_states(1) [OF ph Some]
      consider (ok) "msg_kind (message node) = Kind_OK"
        | (stats) "msg_kind (message node) \<noteq> Kind_OK" "msg_kind (message node) = Kind_RENDER_STATS"
        | (image) "msg_kind (message node) \<noteq> Kind_OK" "msg_kind (message node) \<noteq> Kind_RENDER_STATS"
            "msg_kind (message node) = Kind_SYNC_IMAGE"
        | (other) "msg_kind (message node) \<noteq> Kind_OK" "msg_kind (message node) \<noteq> Kind_RENDER_STATS"
            "msg_kind (message node) \<noteq> Kind_SYNC_IMAGE"
        by blast
      then show "stopped_phase s'"
      proof cases
        case ok
        with d Some have "OnOK i s = Inr s'" by (simp add: DispatchMessage_def)
        moreover have "OnOK i s = Inr (TERRLN (Line ''Received OK in unexpected state.'') s)"
          using st by (intro OnOK_unexpected [OF Some]) auto
        ultimately show ?thesis using r by (auto simp: TERRLN_phase)
      next
        case stats
        with d Some have "s' = set_node i (ReceiveRenderStats parse node) s"
          by (simp add: DispatchMessage_def OnRenderStats_def)
        with r Some show ?thesis
          by (simp add: phase_set_node(2) [where node = node] ReceiveRenderStats_def)
      next
        case image
        with d Some have osi: "OnSyncImage i s = Inr s'" by (simp add: DispatchMessage_def)
        show ?thesis by (rule OnSyncImage_phase(2) [OF osi r])
      next
        case other
        with d Some r show ?thesis by (auto simp: DispatchMessage_def TERRLN_phase)
      qed
    qed
  qed
  from both show "rendering_phase s \<Longrightarrow> rendering_phase s'" by simp
  from both show "stopped_phase s \<Longrightarrow> stopped_phase s'" by simp
qed

lemma fire_phase:
  fixes s :: "'p::{linorder,plus,zero} engine"
  assumes f: "fire parse ev s = Inr s'"
  shows "rendering_phase s \<Longrightarrow> rendering_phase s' \<or> stopped_phase s'"
    and "stopped_phase s \<Longrightarrow> stopped_phase s'"
proof -
  have both: "(rendering_phase s \<longrightarrow> rendering_phase s' \<or> stopped_phase s') \<and>
              (stopped_phase s \<longrightarrow> stopped_phase s')"
  proof (cases ev)
    case (Frame i msg)
    show ?thesis
    proof (cases "get_node s i")
      case None
      with f Frame show ?thesis by (simp add: fire_def)
    next
      case (Some node)
      let ?s1 = "set_node i (node\<lparr>message := msg\<rparr>) s"
      from f Frame Some have d: "DispatchMessage parse i ?s1 = Inr s'" by (simp add: fire_def)
      have "rendering_phase s \<Longrightarrow> rendering_phase ?s1" and "stopped_phase s \<Longrightarrow> stopped_phase ?s1"
        using Some by (simp_all add: phase_set_node [where node = node])
      with DispatchMessage_phase [OF d] show ?thesis by blast
    qed
  next
    case InterestingTick
    show ?thesis
    proof (intro conjI impI)
      assume r: "rendering_phase s"
      with f InterestingTick have "s' = StopRender s \<or> s' = s"
        by (auto simp: fire_def OnInterestingTimeout_def Let_def split: if_splits)
      with r StopRender_stopped [OF r] show "rendering_phase s' \<or> stopped_phase s'" by auto
    next
      assume r: "stopped_phase s"
      with f InterestingTick show "stopped_phase s'"
        by (auto simp: fire_def stopped_phase_def)
    qed
  next
    case RunawayTick
    show ?thesis
    proof (intro conjI impI)
      assume r: "rendering_phase s"
      with f RunawayTick have "s' = OnRunawayTimeout s"
        by (auto simp: fire_def rendering_phase_def)
      with OnRunawayTimeout_rendering [OF r] show "rendering_phase s' \<or> stopped_phase s'" by simp
    next
      assume r: "stopped_phase s"
      with f RunawayTick show "stopped_phase s'"
        by (auto simp: fire_def stopped_phase_def)
    qed
  qed
  from both show "rendering_phase s \<Longrightarrow> rendering_phase s' \<or> stopped_phase s'" by simp
  from both show "stopped_phase s \<Longrightarrow> stopped_phase s'" by simp
qed

lemma run_phase:
  fixes s :: "'p::{linorder,plus,zero} engine"
  shows "run parse evs s = Inr s' \<Longrightarrow> rendering_phase s \<or> stopped_phase s \<Longrightarrow>
         (rendering_phase s' \<or> stopped_phase s') \<and> (stopped_phase s \<longrightarrow> stopped_phase s')"
proof (induction evs arbitrary: s)
  case Nil
  then show ?case by simp
next
  case (Cons ev evs)
  from Cons.prems(1) obtain s1 where f: "fire parse ev s = Inr s1" and r: "run parse evs s1 = Inr s'"
    by (auto split: sum.splits)
  from fire_phase [OF f] Cons.prems(2)
  have p1: "rendering_phase s1 \<or> stopped_phase s1" and p2: "stopped_phase s \<longrightarrow> stopped_phase s1"
    by auto
  from Cons.IH [OF r p1] p2 show ?case by auto
qed


lemma StartRender_rendering:
  assumes "stop_render_calls s = 0" and "get_node s 0 = None" and "StartRender s = Inr s'"
  shows "rendering_phase s'"
proof -
  let ?f = "\<lambda>ident node. (Send (RENDER_START_request (config s) ident) node)\<lparr>state := RENDERING\<rparr>"
  from assms(3) have s': "s' = (for_each_node ?f s)\<lparr>interesting_timer := True, runaway_timer := True\<rparr>"
    by (auto simp: StartRender_def split: if_splits)
  have "list_all (\<lambda>node. state node = RENDERING \<or> state node = PAUSED)
          (net_nodes (nodes (library (for_each_node ?f s))))"
    by (rule list_all_net_nodes_for_each [where Q = "\<lambda>n. True"]) (simp_all add: list_all_iff)
  with assms(1,2) show ?thesis
    by (simp add: s' rendering_phase_def get_node_updates get_node_0_for_each for_each_node_fields)
qed

lemma OnRunawayTimeout_node:
  fixes s :: "'p::{linorder,plus,zero} engine"
  assumes i: "Suc 0 \<le> i" and g: "get_node s i = Some node"
  shows "get_node (OnRunawayTimeout s) i
         = Some (runaway_check (Some (Min (Progress ` set (net_nodes (nodes (library s))))))
                   (runaway (config s)) node)"
proof -
  from get_node_in_net_nodes [OF i g] have "net_nodes (nodes (library s)) \<noteq> []" by auto
  then show ?thesis
    using i g by (simp add: OnRunawayTimeout_def Let_def get_node_for_each_node find_slowest_Min)
qed


text \<open>
  C4, as the code has it.  On a tick of the runaway timer, let \<open>p_min\<close> be the least
  progress of all workers and \<open>r\<close> the configured margin.  A worker that is RENDERING or
  PAUSED, as every worker is while the timer runs, gets RENDER\_PAUSE appended to what is
  sent to it and becomes PAUSED exactly when its progress is greater than \<open>p_min + r\<close>
  and it is RENDERING; it gets RENDER\_RESUME appended and becomes RENDERING exactly when
  its progress is at most \<open>p_min\<close> and not greater than \<open>p_min + r\<close> and it is PAUSED;
  otherwise it is left as it is, and nothing is sent to it.  So no worker is both paused
  and resumed in one tick.  When the margin is not negative (\<open>p_min \<le> p_min + r\<close>) the
  second condition on the progress follows from the first, and the worker is resumed
  exactly when its progress is at most \<open>p_min\<close> and it is PAUSED.
\<close>

theorem runaway_tick_pause_resume:
  fixes s :: "'p::{linorder,plus,zero} engine"
  assumes i: "1 \<le> i" and g: "get_node s i = Some node"
    and st: "state node = RENDERING \<or> state node = PAUSED"
  shows "get_node (OnRunawayTimeout s) i
         = Some (if Min (Progress ` set (net_nodes (nodes (library s)))) + runaway (config s)
                      < Progress node \<and> state node = RENDERING
                 then node\<lparr>state := PAUSED,
                           outbox := outbox node @ [Sent (Message_of_kind Kind_RENDER_PAUSE)]\<rparr>
                 else if Progress node \<le> Min (Progress ` set (net_nodes (nodes (library s))))
                         \<and> \<not> Min (Progress ` set (net_nodes (nodes (library s))))
                                 + runaway (config s) < Progress node
                         \<and> state node = PAUSED
                 then node\<lparr>state := RENDERING,
                           outbox := outbox node @ [Sent (Message_of_kind Kind_RENDER_RESUME)]\<rparr>
                 else node) \<and>
         (Min (Progress ` set (net_nodes (nodes (library s))))
            \<le> Min (Progress ` set (net_nodes (nodes (library s)))) + runaway (config s) \<longrightarrow>
          get_node (OnRunawayTimeout s) i
          = Some (if Min (Progress ` set (net_nodes (nodes (library s)))) + runaway (config s)
                       < Progress node \<and> state node = RENDERING
                  then node\<lparr>state := PAUSED,
                            outbox := outbox node @ [Sent (Message_of_kind Kind_RENDER_PAUSE)]\<rparr>
                  else if Progress node \<le> Min (Progress ` set (net_nodes (nodes (library s))))
                          \<and> state node = PAUSED
                  then node\<lparr>state := RENDERING,
                            outbox := outbox node @ [Sent (Message_of_kind Kind_RENDER_RESUME)]\<rparr>
                  else node))"
proof -
  define pmin where "pmin = Min (Progress ` set (net_nodes (nodes (library s))))"
  define r where "r = runaway (config s)"
  from i g have tick: "get_node (OnRunawayTimeout s) i = Some (runaway_check (Some pmin) r node)"
    unfolding pmin_def r_def by (intro OnRunawayTimeout_node) simp_all
  have a: "runaway_check (Some pmin) r node
           = (if pmin + r < Progress node \<and> state node = RENDERING
              then node\<lparr>state := PAUSED,
                        outbox := outbox node @ [Sent (Message_of_kind Kind_RENDER_PAUSE)]\<rparr>
              else if Progress node \<le> pmin \<and> \<not> pmin + r < Progress node \<and> state node = PAUSED
              then node\<lparr>state := RENDERING,
                        outbox := outbox node @ [Sent (Message_of_kind Kind_RENDER_RESUME)]\<rparr>
              else node)"
    using st
    by (auto simp: runaway_check_def Let_def exceeds_runaway_def at_most_slowest_def Send_def)
  have c1: "get_node (OnRunawayTimeout s) i
            = Some (if pmin + r < Progress node \<and> state node = RENDERING
                    then node\<lparr>state := PAUSED,
                              outbox := outbox node @ [Sent (Message_of_kind Kind_RENDER_PAUSE)]\<rparr>
                    else if Progress node \<le> pmin \<and> \<not> pmin + r < Progress node
                            \<and> state node = PAUSED
                    then node\<lparr>state := RENDERING,
                              outbox := outbox node @ [Sent (Message_of_kind Kind_RENDER_RESUME)]\<rparr>
                    else node)"
    unfolding tick a ..
  have c2: "pmin \<le> pmin + r \<longrightarrow>
            get_node (OnRunawayTimeout s) i
            = Some (if pmin + r < Progress node \<and> state node = RENDERING
                    then node\<lparr>state := PAUSED,
                              outbox := outbox node @ [Sent (Message_of_kind Kind_RENDER_PAUSE)]\<rparr>
                    else if Progress node \<le> pmin \<and> state node = PAUSED
                    then node\<lparr>state := RENDERING,
                              outbox := outbox node @ [Sent (Message_of_kind Kind_RENDER_RESUME)]\<rparr>
                    else node)"
  proof
    assume margin: "pmin \<le> pmin + r"
    have "\<not> pmin + r < Progress node" if "Progress node \<le> pmin"
      using that margin by auto
    then show "get_node (OnRunawayTimeout s) i
            = Some (if pmin + r < Progress node \<and> state node = RENDERING
                    then node\<lparr>state := PAUSED,
                              outbox := outbox node @ [Sent (Message_of_kind Kind_RENDER_PAUSE)]\<rparr>
                    else if Progress node \<le> pmin \<and> state node = PAUSED
                    then node\<lparr>state := RENDERING,
                              outbox := outbox node @ [Sent (Message_of_kind Kind_RENDER_RESUME)]\<rparr>
                    else node)"
      unfolding c1 by auto
  qed
  from c1 [unfolded pmin_def r_def] c2 [unfolded pmin_def r_def] show ?thesis by (rule conjI)
qed


theorem runaway_tick_pause_resume_witness:
  "get_node
     (OnRunawayTimeout
        ((engine_new \<lparr>workers = [''a'', ''b''], width = 640, runaway = 5 :: int\<rparr> 3 False)
           \<lparr>library := Library_new
              \<lparr>nodes := [None,
                  Some (NetNode_new\<lparr>state := PAUSED,
                     window := [\<lparr>rays_produced = 0, rays_killed = 0, rays_queued = 0,
                                 stat_progress = 10\<rparr>]\<rparr>),
                  Some (NetNode_new\<lparr>state := RENDERING,
                     window := [\<lparr>rays_produced = 0, rays_killed = 0, rays_queued = 0,
                                 stat_progress = 20\<rparr>]\<rparr>)]\<rparr>\<rparr>)) 2
   = Some (NetNode_new\<lparr>state := PAUSED,
             outbox := [Sent (Message_of_kind Kind_RENDER_PAUSE)],
             window := [\<lparr>rays_produced = 0, rays_killed = 0, rays_queued = 0,
                         stat_progress = 20\<rparr>]\<rparr>) \<and>
   get_node
     (OnRunawayTimeout
        ((engine_new \<lparr>workers = [''a'', ''b''], width = 640, runaway = 5 :: int\<rparr> 3 False)
           \<lparr>library := Library_new
              \<lparr>nodes := [None,
                  Some (NetNode_new\<lparr>state := PAUSED,
                     window := [\<lparr>rays_produced = 0, rays_killed = 0, rays_queued = 0,
                                 stat_progress = 10\<rparr>]\<rparr>),
                  Some (NetNode_new\<lparr>state := RENDERING,
                     window := [\<lparr>rays_produced = 0, rays_killed = 0, rays_queued = 0,
                                 stat_progress = 20\<rparr>]\<rparr>)]\<rparr>\<rparr>)) 1
   = Some (NetNode_new\<lparr>state := RENDERING,
             outbox := [Sent (Message_of_kind Kind_RENDER_RESUME)],
             window := [\<lparr>rays_produced = 0, rays_killed = 0, rays_queued = 0,
                         stat_progress = 10\<rparr>]\<rparr>)"
proof -
  let ?a = "NetNode_new\<lparr>state := PAUSED,
                     window := [\<lparr>rays_produced = 0, rays_killed = 0, rays_queued = 0,
                                 stat_progress = 10 :: int\<rparr>]\<rparr>"
  let ?b = "NetNode_new\<lparr>state := RENDERING,
                     window := [\<lparr>rays_produced = 0, rays_killed = 0, rays_queued = 0,
                                 stat_progress = 20 :: int\<rparr>]\<rparr>"
  let ?s = "(engine_new \<lparr>workers = [''a'', ''b''], width = 640, runaway = 5 :: int\<rparr> 3 False)
           \<lparr>library := Library_new\<lparr>nodes := [None, Some ?a, Some ?b]\<rparr>\<rparr>"
  have ga: "get_node ?s 1 = Some ?a" and gb: "get_node ?s 2 = Some ?b"
    by (simp_all add: get_node_def)
  have pa: "Progress ?a = 10" and pb: "Progress ?b = 20"
    by (simp_all add: Progress_def NetNode_new_def)
  have m: "Min (Progress ` set (net_nodes (nodes (library ?s)))) = 10"
    by (simp add: net_nodes_def pa pb)
  have r: "runaway (config ?s) = 5" by (simp add: engine_new_def)
  have sa: "state ?a = RENDERING \<or> state ?a = PAUSED"
    and sb: "state ?b = RENDERING \<or> state ?b = PAUSED" by simp_all
  have one: "(1::nat) \<le> 1" and two: "(1::nat) \<le> 2" by simp_all
  from runaway_tick_pause_resume [OF two gb sb, unfolded m r pb, THEN conjunct1]
  have b': "get_node (OnRunawayTimeout ?s) 2
            = Some (NetNode_new\<lparr>state := PAUSED,
                      outbox := [Sent (Message_of_kind Kind_RENDER_PAUSE)],
                      window := [\<lparr>rays_produced = 0, rays_killed = 0, rays_queued = 0,
                                  stat_progress = 20\<rparr>]\<rparr>)"
    by (simp add: NetNode_new_def)
  from runaway_tick_pause_resume [OF one ga sa, unfolded m r pa, THEN conjunct1]
  have a': "get_node (OnRunawayTimeout ?s) 1
            = Some (NetNode_new\<lparr>state := RENDERING,
                      outbox := [Sent (Message_of_kind Kind_RENDER_RESUME)],
                      window := [\<lparr>rays_produced = 0, rays_killed = 0, rays_queued = 0,
                                  stat_progress = 10\<rparr>]\<rparr>)"
    by (simp add: NetNode_new_def)
  from b' a' show ?thesis by (intro conjI)
qed

text \<open>
  With a negative margin the statement of C4 about resuming fails: a worker that is
  PAUSED and whose progress is at most \<open>p_min\<close> also has progress greater than
  \<open>p_min + r\<close>, the first test of the handler succeeds, and the worker is left PAUSED
  without a RENDER\_RESUME.
\<close>

theorem runaway_tick_negative_margin_no_resume:
  "state (NetNode_new\<lparr>state := PAUSED,
            window := [\<lparr>rays_produced = 0, rays_killed = 0, rays_queued = 0,
                        stat_progress = 10 :: int\<rparr>]\<rparr>) = PAUSED \<and>
   Progress (NetNode_new\<lparr>state := PAUSED,
            window := [\<lparr>rays_produced = 0, rays_killed = 0, rays_queued = 0,
                        stat_progress = 10 :: int\<rparr>]\<rparr>)
     \<le> Min (Progress ` set (net_nodes [None,
            Some (NetNode_new\<lparr>state := PAUSED,
              window := [\<lparr>rays_produced = 0, rays_killed = 0, rays_queued = 0,
                          stat_progress = 10 :: int\<rparr>]\<rparr>)])) \<and>
   get_node
     (OnRunawayTimeout
        ((engine_new \<lparr>workers = [''a''], width = 640, runaway = - 5 :: int\<rparr> 3 False)
           \<lparr>library := Library_new
              \<lparr>nodes := [None,
                  Some (NetNode_new\<lparr>state := PAUSED,
                     window := [\<lparr>rays_produced = 0, rays_killed = 0, rays_queued = 0,
                                 stat_progress = 10\<rparr>]\<rparr>)]\<rparr>\<rparr>)) 1
   = Some (NetNode_new\<lparr>state := PAUSED,
             window := [\<lparr>rays_produced = 0, rays_killed = 0, rays_queued = 0,
                         stat_progress = 10\<rparr>]\<rparr>)"
proof -
  let ?a = "NetNode_new\<lparr>state := PAUSED,
                     window := [\<lparr>rays_produced = 0, rays_killed = 0, rays_queued = 0,
                                 stat_progress = 10 :: int\<rparr>]\<rparr>"
  let ?s = "(engine_new \<lparr>workers = [''a''], width = 640, runaway = - 5 :: int\<rparr> 3 False)
           \<lparr>library := Library_new\<lparr>nodes := [None, Some ?a]\<rparr>\<rparr>"
  have g: "get_node ?s 1 = Some ?a" by (simp add: get_node_def)
  have pa: "Progress ?a = 10" by (simp add: Progress_def NetNode_new_def)
  have m: "Min (Progress ` set (net_nodes [None, Some ?a])) = 10"
    by (simp add: net_nodes_def pa)
  have r: "runaway (config ?s) = - 5" by (simp add: engine_new_def)
  have "get_node (OnRunawayTimeout ?s) 1
          = Some (runaway_check (Some (Min (Progress ` set (net_nodes (nodes (library ?s))))))
                    (runaway (config ?s)) ?a)"
    by (rule OnRunawayTimeout_node [OF _ g]) simp
  also have "nodes (library ?s) = [None, Some ?a]" by simp
  finally have "get_node (OnRunawayTimeout ?s) 1 = Some (runaway_check (Some 10) (- 5) ?a)"
    unfolding m r .
  moreover have "runaway_check (Some 10) (- 5) ?a = ?a"
    by (simp add: runaway_check_def Let_def pa exceeds_runaway_def)
  ultimately have "get_node (OnRunawayTimeout ?s) 1 = Some ?a" by (simp only:)
  moreover have "state ?a = PAUSED" by simp
  moreover have "Progress ?a \<le> Min (Progress ` set (net_nodes [None, Some ?a]))"
    unfolding m pa by simp
  ultimately show ?thesis by (intro conjI)
qed

text \<open>
  C5.  Let the coordinator be rendering (as it is after \<open>StartRender\<close>), let a run of
  events lead to a state in which every worker is uninteresting, and let the interesting
  timer tick there, followed by any further events.  Then at the end of the run
  \<open>StopRender\<close> has been called exactly once, both monitors are stopped and every
  worker is in SYNCING\_IMAGES.  If the timer was still running at that tick, the tick
  is the call: it appends one RENDER\_STOP, and nothing else, to what is sent to each
  worker and puts the worker in SYNCING\_IMAGES.  A stopped timer does not tick, so no
  later event calls \<open>StopRender\<close> again.
\<close>

theorem quiescence_stops_render_once:
  fixes s0 :: "'p::{linorder,plus,zero} engine"
  assumes r0: "rendering_phase s0"
    and run1: "run parse es1 s0 = Inr s1"
    and quiet: "list_all (\<lambda>node. \<not> IsInteresting node (max_intervals s1))
                  (net_nodes (nodes (library s1)))"
    and run2: "run parse (InterestingTick # es2) s1 = Inr s2"
  shows "stop_render_calls s2 = 1 \<and> \<not> interesting_timer s2 \<and> \<not> runaway_timer s2 \<and>
         list_all (\<lambda>node. state node = SYNCING_IMAGES) (net_nodes (nodes (library s2))) \<and>
         (interesting_timer s1 \<longrightarrow>
            stop_render_calls s1 = 0 \<and>
            fire parse InterestingTick s1 = Inr (StopRender s1) \<and>
            (\<forall>i node. 1 \<le> i \<and> get_node s1 i = Some node \<longrightarrow>
               get_node (StopRender s1) i
                 = Some (node\<lparr>outbox := outbox node @ [Sent (Message_of_kind Kind_RENDER_STOP)],
                              state := SYNCING_IMAGES\<rparr>))) \<and>
         (stop_render_calls sa = 0 \<and> get_node sa 0 = None \<and> StartRender sa = Inr sb
            \<longrightarrow> rendering_phase sb)"
proof -
  from run_phase [OF run1] r0 have ph1: "rendering_phase s1 \<or> stopped_phase s1" by simp
  from run2 obtain s1' where f: "fire parse InterestingTick s1 = Inr s1'"
    and rest: "run parse es2 s1' = Inr s2"
    by (auto split: sum.splits)
  have all_quiet: "snd (ForEachNetNode
                    (\<lambda>ident node done. (node, done \<and> \<not> IsInteresting node (max_intervals s1)))
                    (nodes (library s1)) True)"
    using quiet by (simp add: done_iff)
  have tick: "interesting_timer s1 \<Longrightarrow> fire parse InterestingTick s1 = Inr (StopRender s1)"
    using all_quiet by (simp add: fire_def OnInterestingTimeout_def Let_def)
  have st1: "stopped_phase s1'"
  proof (cases "interesting_timer s1")
    case True
    with ph1 have r: "rendering_phase s1" by (auto simp: stopped_phase_def)
    from tick [OF True] f have "s1' = StopRender s1" by simp
    with StopRender_stopped [OF r] show ?thesis by simp
  next
    case False
    with ph1 have "stopped_phase s1" by (auto simp: rendering_phase_def)
    moreover from False f have "s1' = s1" by (simp add: fire_def)
    ultimately show ?thesis by simp
  qed
  from run_phase [OF rest] st1 have "stopped_phase s2" by simp
  then have a: "stop_render_calls s2 = 1 \<and> \<not> interesting_timer s2 \<and> \<not> runaway_timer s2 \<and>
         list_all (\<lambda>node. state node = SYNCING_IMAGES) (net_nodes (nodes (library s2)))"
    by (simp add: stopped_phase_def)
  have b: "interesting_timer s1 \<longrightarrow>
            stop_render_calls s1 = 0 \<and>
            fire parse InterestingTick s1 = Inr (StopRender s1) \<and>
            (\<forall>i node. 1 \<le> i \<and> get_node s1 i = Some node \<longrightarrow>
               get_node (StopRender s1) i
                 = Some (node\<lparr>outbox := outbox node @ [Sent (Message_of_kind Kind_RENDER_STOP)],
                              state := SYNCING_IMAGES\<rparr>))"
  proof (intro impI conjI allI)
    assume t: "interesting_timer s1"
    with ph1 show "stop_render_calls s1 = 0" by (auto simp: rendering_phase_def stopped_phase_def)
    from tick [OF t] show "fire parse InterestingTick s1 = Inr (StopRender s1)" .
  next
    fix i node
    assume "1 \<le> i \<and> get_node s1 i = Some node"
    then show "get_node (StopRender s1) i
                 = Some (node\<lparr>outbox := outbox node @ [Sent (Message_of_kind Kind_RENDER_STOP)],
                              state := SYNCING_IMAGES\<rparr>)"
      by (simp add: StopRender_node Send_def)
  qed
  have c: "stop_render_calls sa = 0 \<and> get_node sa 0 = None \<and> StartRender sa = Inr sb
            \<longrightarrow> rendering_phase sb"
    by (auto intro: StartRender_rendering)
  from a b c show ?thesis by blast
qed


theorem quiescence_stops_render_once_witness:
  "rendering_phase
     ((engine_new \<lparr>workers = [''a''], width = 640, runaway = 5 :: int\<rparr> 3 False)
        \<lparr>library := Library_new\<lparr>nodes := [None, Some (NetNode_new\<lparr>state := RENDERING\<rparr>)]\<rparr>,
         interesting_timer := True, runaway_timer := True\<rparr>) \<and>
   run (\<lambda>bs. \<lparr>rays_produced = 0, rays_killed = 0, rays_queued = 0, stat_progress = 0\<rparr>)
       [InterestingTick, RunawayTick, InterestingTick]
       ((engine_new \<lparr>workers = [''a''], width = 640, runaway = 5 :: int\<rparr> 3 False)
          \<lparr>library := Library_new\<lparr>nodes := [None, Some (NetNode_new\<lparr>state := RENDERING\<rparr>)]\<rparr>,
           interesting_timer := True, runaway_timer := True\<rparr>)
     = Inr (StopRender
         ((engine_new \<lparr>workers = [''a''], width = 640, runaway = 5 :: int\<rparr> 3 False)
            \<lparr>library := Library_new\<lparr>nodes := [None, Some (NetNode_new\<lparr>state := RENDERING\<rparr>)]\<rparr>,
             interesting_timer := True, runaway_timer := True\<rparr>)) \<and>
   stop_render_calls (StopRender
         ((engine_new \<lparr>workers = [''a''], width = 640, runaway = 5 :: int\<rparr> 3 False)
            \<lparr>library := Library_new\<lparr>nodes := [None, Some (NetNode_new\<lparr>state := RENDERING\<rparr>)]\<rparr>,
             interesting_timer := True, runaway_timer := True\<rparr>)) = 1 \<and>
   get_node (StopRender
         ((engine_new \<lparr>workers = [''a''], width = 640, runaway = 5 :: int\<rparr> 3 False)
            \<lparr>library := Library_new\<lparr>nodes := [None, Some (NetNode_new\<lparr>state := RENDERING\<rparr>)]\<rparr>,
             interesting_timer := True, runaway_timer := True\<rparr>)) 1
     = Some (NetNode_new\<lparr>outbox := [Sent (Message_of_kind Kind_RENDER_STOP)],
                          state := SYNCING_IMAGES\<rparr>)"
proof -
  let ?p = "\<lambda>bs :: byte list. \<lparr>rays_produced = 0, rays_killed = 0, rays_queued = 0,
                                 stat_progress = 0 :: int\<rparr>"
  let ?s = "(engine_new \<lparr>workers = [''a''], width = 640, runaway = 5 :: int\<rparr> 3 False)
        \<lparr>library := Library_new\<lparr>nodes := [None, Some (NetNode_new\<lparr>state := RENDERING\<rparr>)]\<rparr>,
         interesting_timer := True, runaway_timer := True\<rparr>"
  have r0: "rendering_phase ?s"
    by (simp add: rendering_phase_def get_node_def net_nodes_def engine_new_def)
  have run1: "run ?p [] ?s = Inr ?s" by simp
  have quiet: "list_all (\<lambda>node. \<not> IsInteresting node (max_intervals ?s))
                 (net_nodes (nodes (library ?s)))"
    by (simp add: net_nodes_def IsInteresting_def NetNode_new_def)
  have tick: "fire ?p InterestingTick ?s = Inr (StopRender ?s)"
    using quiet by (simp add: fire_def OnInterestingTimeout_def Let_def done_iff)
  have off: "fire ?p ev (StopRender ?s) = Inr (StopRender ?s)"
    if "ev = InterestingTick \<or> ev = RunawayTick" for ev
    using that StopRender_fields [of ?s] by (auto simp: fire_def)
  have run2: "run ?p (InterestingTick # [RunawayTick, InterestingTick]) ?s = Inr (StopRender ?s)"
    by (simp add: tick off)
  have timer: "interesting_timer ?s" by simp
  have g: "get_node ?s 1 = Some (NetNode_new\<lparr>state := RENDERING\<rparr>)"
    by (simp add: get_node_def)
  note res = quiescence_stops_render_once [OF r0 run1 quiet run2]
  from res have calls: "stop_render_calls (StopRender ?s) = 1" by blast
  from res timer have every:
    "\<forall>i node. 1 \<le> i \<and> get_node ?s i = Some node \<longrightarrow>
       get_node (StopRender ?s) i
         = Some (node\<lparr>outbox := outbox node @ [Sent (Message_of_kind Kind_RENDER_STOP)],
                      state := SYNCING_IMAGES\<rparr>)"
    by blast
  have "1 \<le> (1::nat) \<and> get_node ?s 1 = Some (NetNode_new\<lparr>state := RENDERING\<rparr>)"
    using g by simp
  from every [rule_format, OF this]
  have sent: "get_node (StopRender ?s) 1
     = Some (NetNode_new\<lparr>outbox := [Sent (Message_of_kind Kind_RENDER_STOP)],
                          state := SYNCING_IMAGES\<rparr>)"
    by (simp add: NetNode_new_def)
  from r0 run2 calls sent show ?thesis by (intro conjI)
qed

text \<open>
  C9.  A message whose kind is none of OK, RENDER\_STATS and SYNC\_IMAGE makes the
  dispatcher write two lines to the error log and return: nothing else of the state
  changes, and there is no fault.  An OK received by a node whose state has no
  transition (NONE, CONNECTED, READY, RENDERING, PAUSED, SYNCING\_IMAGES, DONE) makes it
  write one line and return, and again nothing else changes.
\<close>

theorem protocol_violations_not_fatal:
  assumes g: "get_node s i = Some node"
  shows "(msg_kind (message node) \<noteq> Kind_OK \<and> msg_kind (message node) \<noteq> Kind_RENDER_STATS \<and>
          msg_kind (message node) \<noteq> Kind_SYNC_IMAGE \<longrightarrow>
            DispatchMessage parse i s
              = Inr (s\<lparr>errlog := errlog s @ [Line ''Received unexpected message.'',
                                               MessageDump (message node)]\<rparr>)) \<and>
         (msg_kind (message node) = Kind_OK \<and>
          (state node = NONE \<or> state node = CONNECTED \<or> state node = READY \<or>
           state node = RENDERING \<or> state node = PAUSED \<or> state node = SYNCING_IMAGES \<or>
           state node = DONE) \<longrightarrow>
            DispatchMessage parse i s
              = Inr (s\<lparr>errlog := errlog s @ [Line ''Received OK in unexpected state.'']\<rparr>))"
proof (intro conjI impI)
  assume "msg_kind (message node) \<noteq> Kind_OK \<and> msg_kind (message node) \<noteq> Kind_RENDER_STATS \<and>
          msg_kind (message node) \<noteq> Kind_SYNC_IMAGE"
  with g show "DispatchMessage parse i s
              = Inr (s\<lparr>errlog := errlog s @ [Line ''Received unexpected message.'',
                                               MessageDump (message node)]\<rparr>)"
    by (simp add: DispatchMessage_def TERRLN_def)
next
  assume a: "msg_kind (message node) = Kind_OK \<and>
          (state node = NONE \<or> state node = CONNECTED \<or> state node = READY \<or>
           state node = RENDERING \<or> state node = PAUSED \<or> state node = SYNCING_IMAGES \<or>
           state node = DONE)"
  then have "OnOK i s = Inr (TERRLN (Line ''Received OK in unexpected state.'') s)"
    by (intro OnOK_unexpected [OF g]) simp
  with a g show "DispatchMessage parse i s
              = Inr (s\<lparr>errlog := errlog s @ [Line ''Received OK in unexpected state.'']\<rparr>)"
    by (simp add: DispatchMessage_def TERRLN_def)
qed


theorem protocol_violations_not_fatal_witness:
  "DispatchMessage (\<lambda>bs. \<lparr>rays_produced = 0, rays_killed = 0, rays_queued = 0, stat_progress = 0\<rparr>) 1
     ((engine_new \<lparr>workers = [''a''], width = 640, runaway = 5 :: int\<rparr> 3 False)
        \<lparr>library := Library_new\<lparr>nodes := [None,
           Some (NetNode_new\<lparr>state := RENDERING, message := Message_of_kind Kind_RAY\<rparr>)]\<rparr>\<rparr>)
   = Inr ((engine_new \<lparr>workers = [''a''], width = 640, runaway = 5 :: int\<rparr> 3 False)
        \<lparr>library := Library_new\<lparr>nodes := [None,
           Some (NetNode_new\<lparr>state := RENDERING, message := Message_of_kind Kind_RAY\<rparr>)]\<rparr>,
         errlog := [Line ''Received unexpected message.'', MessageDump (Message_of_kind Kind_RAY)]\<rparr>) \<and>
   DispatchMessage (\<lambda>bs. \<lparr>rays_produced = 0, rays_killed = 0, rays_queued = 0, stat_progress = 0\<rparr>) 1
     ((engine_new \<lparr>workers = [''a''], width = 640, runaway = 5 :: int\<rparr> 3 False)
        \<lparr>library := Library_new\<lparr>nodes := [None,
           Some (NetNode_new\<lparr>state := RENDERING, message := Message_of_kind Kind_OK\<rparr>)]\<rparr>\<rparr>)
   = Inr ((engine_new \<lparr>workers = [''a''], width = 640, runaway = 5 :: int\<rparr> 3 False)
        \<lparr>library := Library_new\<lparr>nodes := [None,
           Some (NetNode_new\<lparr>state := RENDERING, message := Message_of_kind Kind_OK\<rparr>)]\<rparr>,
         errlog := [Line ''Received OK in unexpected state.'']\<rparr>)"
proof -
  let ?p = "\<lambda>bs :: byte list. \<lparr>rays_produced = 0, rays_killed = 0, rays_queued = 0,
                                 stat_progress = 0 :: int\<rparr>"
  let ?n = "\<lambda>k. NetNode_new\<lparr>state := RENDERING, message := Message_of_kind k\<rparr> :: int NetNode"
  let ?s = "\<lambda>k. (engine_new \<lparr>workers = [''a''], width = 640, runaway = 5 :: int\<rparr> 3 False)
        \<lparr>library := Library_new\<lparr>nodes := [None, Some (?n k)]\<rparr>\<rparr>"
  have g: "get_node (?s k) 1 = Some (?n k)" for k by (simp add: get_node_def)
  have e: "errlog (?s k) = []" for k by (simp add: engine_new_def)
  have k1: "msg_kind (message (?n Kind_RAY)) \<noteq> Kind_OK \<and>
            msg_kind (message (?n Kind_RAY)) \<noteq> Kind_RENDER_STATS \<and>
            msg_kind (message (?n Kind_RAY)) \<noteq> Kind_SYNC_IMAGE"
    by (simp add: Message_of_kind_def Kind_defs)
  have k2: "msg_kind (message (?n Kind_OK)) = Kind_OK \<and>
          (state (?n Kind_OK) = NONE \<or> state (?n Kind_OK) = CONNECTED \<or> state (?n Kind_OK) = READY \<or>
           state (?n Kind_OK) = RENDERING \<or> state (?n Kind_OK) = PAUSED \<or>
           state (?n Kind_OK) = SYNCING_IMAGES \<or> state (?n Kind_OK) = DONE)"
    by (simp add: Message_of_kind_def)
  from protocol_violations_not_fatal [OF g [of Kind_RAY], of ?p] k1
  have a: "DispatchMessage ?p 1 (?s Kind_RAY)
             = Inr ((?s Kind_RAY)\<lparr>errlog := errlog (?s Kind_RAY) @
                      [Line ''Received unexpected message.'', MessageDump (message (?n Kind_RAY))]\<rparr>)"
    by blast
  from protocol_violations_not_fatal [OF g [of Kind_OK], of ?p] k2
  have b: "DispatchMessage ?p 1 (?s Kind_OK)
             = Inr ((?s Kind_OK)\<lparr>errlog := errlog (?s Kind_OK) @
                      [Line ''Received OK in unexpected state.'']\<rparr>)"
    by blast
  from a b show ?thesis by (simp add: e)
qed

section \<open>Properties of the framing\<close>

subsection \<open>Bytes\<close>

lemma length_u32_bytes: "length (u32_bytes w) = 4"
  by (simp add: u32_bytes_def)

lemma bytes_u32_u32_bytes: "bytes_u32 (u32_bytes w) = w"
proof (rule bit_word_eqI)
  fix n assume n: "n < LENGTH(32)"
  have c: "n < 8 \<or> (8 \<le> n \<and> n < 16) \<or> (16 \<le> n \<and> n < 24) \<or> (24 \<le> n \<and> n < 32)"
    using n by auto
  have s8: "8 + (n - 8) = n" if "8 \<le> n" using that by simp
  have s16: "16 + (n - 16) = n" if "16 \<le> n" using that by simp
  have s24: "24 + (n - 24) = n" if "24 \<le> n" using that by simp
  from c n show "bit (bytes_u32 (u32_bytes w)) n = bit w n"
    by (auto simp: bytes_u32_def u32_bytes_def bit_simps s8 s16 s24)
qed

lemma bytes_u32_append: "length a = 4 \<Longrightarrow> bytes_u32 (a @ b) = bytes_u32 a"
  by (simp add: bytes_u32_def nth_append)

lemma length_memcpy_at:
  "off + length src \<le> length dst \<Longrightarrow> length (memcpy_at dst off src) = length dst"
  by (simp add: memcpy_at_def)

lemma memcpy_at_Nil: "off \<le> length dst \<Longrightarrow> memcpy_at dst off [] = dst"
  by (simp add: memcpy_at_def)

lemma memcpy_at_append:
  "off + length a \<le> length dst \<Longrightarrow>
   memcpy_at (memcpy_at dst off a) (off + length a) c = memcpy_at dst off (a @ c)"
  by (simp add: memcpy_at_def ac_simps)

lemma memcpy_at_whole: "length src = length dst \<Longrightarrow> memcpy_at dst 0 src = src"
  by (simp add: memcpy_at_def)

lemma take_memcpy_at:
  "off + length src \<le> length dst \<Longrightarrow>
   take (off + length src) (memcpy_at dst off src) = take off dst @ src"
  by (simp add: memcpy_at_def)

subsection \<open>The sender\<close>

lemma length_header_bytes: "length (header_bytes msg) = 8"
  by (simp add: header_bytes_def length_u32_bytes)

lemma Flush_out_stream: "out_stream (Flush s) = out_stream s"
  by (simp add: Flush_def out_stream_def pending_def)

lemma Flush_buffer: "buffer (Flush s) = buffer s"
  by (simp add: Flush_def)

lemma Flush_nwritten: "nwritten (Flush s) = 0"
  by (simp add: Flush_def)

lemma Flush_pending: "concat (wire (Flush s)) = out_stream s"
  by (simp add: Flush_def out_stream_def pending_def)

lemma out_stream_copy:
  assumes "nwritten s + length bs \<le> length (buffer s)"
  shows "out_stream (s\<lparr>buffer := memcpy_at (buffer s) (nwritten s) bs,
                       nwritten := nwritten s + length bs\<rparr>)
         = out_stream s @ bs"
  using assms take_memcpy_at [of "nwritten s" bs "buffer s"]
  by (simp add: out_stream_def pending_def)

lemma Send_body_out_stream:
  assumes "nwritten s \<le> length (buffer s)" and "0 < length (buffer s)"
    and "bytes_sent \<le> unat (msg_size msg)" and "length (msg_body msg) = unat (msg_size msg)"
  shows "\<exists>s'. Send_body msg bytes_sent s = Inr s' \<and>
              out_stream s' = out_stream s @ drop bytes_sent (msg_body msg) \<and>
              nwritten s' \<le> length (buffer s') \<and> length (buffer s') = length (buffer s)"
  using assms
proof (induction msg bytes_sent s rule: Send_body.induct)
  case (1 msg bytes_sent s)
  let ?W = "length (buffer s)"
  let ?rem = "unat (msg_size msg) - bytes_sent"
  from "1.prems" have nlt: "\<not> unat (msg_size msg) < bytes_sent" by simp
  show ?case
  proof (cases "int ?rem \<le> int ?W - int (nwritten s)")
    case True
    then have fits: "nwritten s + ?rem \<le> ?W" by linarith
    have tk: "take ?rem (drop bytes_sent (msg_body msg)) = drop bytes_sent (msg_body msg)"
      using "1.prems" by simp
    have len: "length (drop bytes_sent (msg_body msg)) = ?rem" using "1.prems" by simp
    let ?s' = "s\<lparr>buffer := memcpy_at (buffer s) (nwritten s) (drop bytes_sent (msg_body msg)),
                  nwritten := nwritten s + ?rem\<rparr>"
    have run: "Send_body msg bytes_sent s = Inr ?s'"
      using True nlt by (subst Send_body.simps) (simp add: tk)
    have "out_stream ?s' = out_stream s @ drop bytes_sent (msg_body msg)"
      using out_stream_copy [of s "drop bytes_sent (msg_body msg)"] fits len by simp
    moreover have "nwritten ?s' \<le> length (buffer ?s')" "length (buffer ?s') = ?W"
      using fits len by (simp_all add: length_memcpy_at)
    ultimately show ?thesis using run by blast
  next
    case False
    then have big: "?W < nwritten s + ?rem" by linarith
    from "1.prems" have W0: "?W \<noteq> 0" by simp
    show ?thesis
    proof (cases "nwritten s < ?W")
      case True
      let ?sl = "?W - nwritten s"
      let ?chunk = "take ?sl (drop bytes_sent (msg_body msg))"
      let ?s1 = "s\<lparr>buffer := memcpy_at (buffer s) (nwritten s) ?chunk,
                   nwritten := nwritten s + ?sl\<rparr>"
      have lc: "length ?chunk = ?sl" using big "1.prems" by simp
      have b1: "length (buffer ?s1) = ?W" using lc True by (simp add: length_memcpy_at)
      have o1: "out_stream ?s1 = out_stream s @ ?chunk"
        using out_stream_copy [of s ?chunk] lc True by simp
      have step: "Send_body msg bytes_sent s = Send_body msg (bytes_sent + ?sl) (Flush ?s1)"
        using False nlt W0 True by (subst Send_body.simps) simp
      have p1: "nwritten (Flush ?s1) \<le> length (buffer (Flush ?s1))"
        by (simp add: Flush_nwritten)
      have p2: "0 < length (buffer (Flush ?s1))" using b1 W0 by (simp add: Flush_buffer)
      have p3: "bytes_sent + ?sl \<le> unat (msg_size msg)" using big True "1.prems" by linarith
      from "1.IH"(1) [OF nlt False W0 True p1 p2 p3 "1.prems"(4)]
      obtain s' where r: "Send_body msg (bytes_sent + ?sl) (Flush ?s1) = Inr s'"
        and o: "out_stream s' = out_stream (Flush ?s1) @ drop (bytes_sent + ?sl) (msg_body msg)"
        and n: "nwritten s' \<le> length (buffer s')"
        and l: "length (buffer s') = length (buffer (Flush ?s1))"
        by blast
      have "?chunk @ drop (bytes_sent + ?sl) (msg_body msg) = drop bytes_sent (msg_body msg)"
        by (metis add.commute append_take_drop_id drop_drop)
      with o o1 have "out_stream s' = out_stream s @ drop bytes_sent (msg_body msg)"
        by (simp add: Flush_out_stream)
      moreover from l b1 have "length (buffer s') = ?W" by (simp add: Flush_buffer)
      ultimately show ?thesis using step r n by auto
    next
      case full: False
      with "1.prems" have eq: "nwritten s = ?W" by simp
      have step: "Send_body msg bytes_sent s = Send_body msg bytes_sent (Flush s)"
        using False nlt W0 full by (subst Send_body.simps) simp
      have p1: "nwritten (Flush s) \<le> length (buffer (Flush s))" by (simp add: Flush_nwritten)
      have p2: "0 < length (buffer (Flush s))" using W0 by (simp add: Flush_buffer)
      from "1.IH"(2) [OF nlt False W0 full p1 p2 "1.prems"(3,4)]
      obtain s' where r: "Send_body msg bytes_sent (Flush s) = Inr s'"
        and o: "out_stream s' = out_stream (Flush s) @ drop bytes_sent (msg_body msg)"
        and n: "nwritten s' \<le> length (buffer s')"
        and l: "length (buffer s') = length (buffer (Flush s))"
        by blast
      then show ?thesis using step by (auto simp: Flush_out_stream Flush_buffer)
    qed
  qed
qed

lemma Send_bytes_out_stream:
  assumes "nwritten s \<le> length (buffer s)" and "8 \<le> length (buffer s)" and "wf_message msg"
  shows "\<exists>s'. Send_bytes msg s = Inr s' \<and> out_stream s' = out_stream s @ encode msg \<and>
              nwritten s' \<le> length (buffer s') \<and> length (buffer s') = length (buffer s)"
proof -
  define s1 where "s1 = (if length (buffer s) < nwritten s + 8 then Flush s else s)"
  define s2 where "s2 = s1\<lparr>buffer := memcpy_at (buffer s1) (nwritten s1) (header_bytes msg),
                           nwritten := nwritten s1 + 8\<rparr>"
  have b1: "length (buffer s1) = length (buffer s)" by (simp add: s1_def Flush_buffer)
  have n1: "nwritten s1 + 8 \<le> length (buffer s)" using assms(2) by (simp add: s1_def Flush_nwritten)
  have o1: "out_stream s1 = out_stream s" by (simp add: s1_def Flush_out_stream)
  have "out_stream (s1\<lparr>buffer := memcpy_at (buffer s1) (nwritten s1) (header_bytes msg),
                        nwritten := nwritten s1 + length (header_bytes msg)\<rparr>)
          = out_stream s1 @ header_bytes msg"
    using n1 b1 by (intro out_stream_copy) (simp add: length_header_bytes)
  then have o2: "out_stream s2 = out_stream s @ header_bytes msg"
    by (simp add: s2_def o1 length_header_bytes)
  have b2: "length (buffer s2) = length (buffer s)"
    using n1 b1 by (simp add: s2_def length_memcpy_at length_header_bytes)
  have n2: "nwritten s2 \<le> length (buffer s2)" using n1 b2 by (simp add: s2_def)
  have w: "length (msg_body msg) = unat (msg_size msg)" using assms(3) by (simp add: wf_message_def)
  have run: "Send_bytes msg s = Send_body msg 0 s2"
    using w n1 b1 by (simp add: Send_bytes_def Let_def s2_def s1_def)
  have p2: "0 < length (buffer s2)" using b2 assms(2) by auto
  from Send_body_out_stream [OF n2 p2 _ w, of 0]
  obtain s' where "Send_body msg 0 s2 = Inr s'"
    and "out_stream s' = out_stream s2 @ drop 0 (msg_body msg)"
    and "nwritten s' \<le> length (buffer s')" and "length (buffer s') = length (buffer s2)"
    by auto
  with run o2 b2 show ?thesis by (auto simp: encode_def)
qed

lemma run_sender_out_stream:
  assumes "nwritten s \<le> length (buffer s)" and "8 \<le> length (buffer s)"
    and "list_all wf_message (sent_messages ops)"
  shows "\<exists>s'. run_sender ops s = Inr s' \<and>
              out_stream s' = out_stream s @ concat (map encode (sent_messages ops)) \<and>
              nwritten s' \<le> length (buffer s') \<and> length (buffer s') = length (buffer s)"
  using assms
proof (induction ops s rule: run_sender.induct)
  case (1 s)
  then show ?case by simp
next
  case (2 msg ops s)
  from "2.prems" have wf: "wf_message msg" and rest: "list_all wf_message (sent_messages ops)"
    by simp_all
  from Send_bytes_out_stream [OF "2.prems"(1,2) wf]
  obtain s1 where s1: "Send_bytes msg s = Inr s1" and o1: "out_stream s1 = out_stream s @ encode msg"
    and n1: "nwritten s1 \<le> length (buffer s1)" and l1: "length (buffer s1) = length (buffer s)"
    by blast
  from "2.prems"(2) l1 have w1: "8 \<le> length (buffer s1)" by simp
  from "2.IH" [OF s1 n1 w1 rest] s1 o1 l1 show ?case by auto
next
  case (3 ops s)
  have n1: "nwritten (Flush s) \<le> length (buffer (Flush s))" by (simp add: Flush_nwritten)
  have w1: "8 \<le> length (buffer (Flush s))" using "3.prems"(2) by (simp add: Flush_buffer)
  from "3.prems"(3) have rest: "list_all wf_message (sent_messages ops)" by simp
  from "3.IH" [OF n1 w1 rest] show ?case by (auto simp: Flush_out_stream Flush_buffer)
qed

subsection \<open>The receiver\<close>

lemma take_append_short: "length a \<le> n \<Longrightarrow> take n (a @ b) = a @ take (n - length a) b"
  by simp

lemma drop_append_short: "length a \<le> n \<Longrightarrow> drop n (a @ b) = drop (n - length a) b"
  by simp

lemma Receive_loop_header_complete:
  assumes "mode r = HEADER" and "nread r \<le> 8" and "8 - nread r \<le> length buf"
  shows "Receive_loop r buf =
           Receive_loop
             (r\<lparr>rx_header := memcpy_at (rx_header r) (nread r) (take (8 - nread r) buf),
                nread := 0,
                rx_body :=
                  replicate
                    (unat (bytes_u32
                       (drop 4 (memcpy_at (rx_header r) (nread r) (take (8 - nread r) buf)))))
                    0,
                mode := BODY\<rparr>)
             (drop (8 - nread r) buf)"
  using assms by (subst Receive_loop.simps) simp

lemma Receive_loop_header_partial:
  assumes "mode r = HEADER" and "nread r \<le> 8" and "\<not> 8 - nread r \<le> length buf"
  shows "Receive_loop r buf =
           Inr (r\<lparr>rx_header := memcpy_at (rx_header r) (nread r) buf,
                  nread := nread r + length buf\<rparr>)"
  using assms by (subst Receive_loop.simps) simp

lemma Receive_loop_body_complete:
  assumes "mode r = BODY" and "nread r \<le> unat (rx_size r)"
    and "unat (rx_size r) - nread r \<le> length buf"
  shows "Receive_loop r buf =
           Receive_loop
             (r\<lparr>rx_body :=
                  memcpy_at (rx_body r) (nread r) (take (unat (rx_size r) - nread r) buf),
                nread := 0,
                dispatched :=
                  dispatched r @
                    [\<lparr>msg_kind = rx_kind r, msg_size = rx_size r,
                      msg_body =
                        memcpy_at (rx_body r) (nread r)
                          (take (unat (rx_size r) - nread r) buf)\<rparr>],
                mode := HEADER\<rparr>)
             (drop (unat (rx_size r) - nread r) buf)"
  using assms by (subst Receive_loop.simps) simp

lemma Receive_loop_body_partial:
  assumes "mode r = BODY" and "nread r \<le> unat (rx_size r)"
    and "\<not> unat (rx_size r) - nread r \<le> length buf"
  shows "Receive_loop r buf =
           Inr (r\<lparr>rx_body := memcpy_at (rx_body r) (nread r) buf,
                  nread := nread r + length buf\<rparr>)"
  using assms by (subst Receive_loop.simps) simp

lemma mode_cases: "mode r \<noteq> HEADER \<Longrightarrow> mode r = BODY"
  by (cases "mode r") simp_all

lemma Receive_loop_append:
  "rx_ok r \<Longrightarrow>
   Receive_loop r (a @ b) = (case Receive_loop r a of Inl e \<Rightarrow> Inl e | Inr r' \<Rightarrow> Receive_loop r' b)"
proof (induction r a rule: Receive_loop.induct)
  case (1 r a)
  show ?case
  proof (cases "mode r = HEADER")
    case True
    from "1.prems" True have len: "length (rx_header r) = 8" and n8: "nread r \<le> 8"
      by (simp_all add: rx_ok_def)
    then have n8': "\<not> 8 < nread r" by simp
    let ?btg = "8 - nread r"
    show ?thesis
    proof (cases "?btg \<le> length a")
      case fits: True
      let ?h = "memcpy_at (rx_header r) (nread r) (take ?btg a)"
      let ?r1 = "r\<lparr>rx_header := ?h, nread := 0,
                   rx_body := replicate (unat (bytes_u32 (drop 4 ?h))) 0, mode := BODY\<rparr>"
      have lh: "length ?h = 8" using len n8 fits by (simp add: length_memcpy_at)
      have ok1: "rx_ok ?r1" using lh by (simp add: rx_ok_def rx_size_def)
      have fits': "?btg \<le> length (a @ b)" using fits by simp
      have L: "Receive_loop r (a @ b) = Receive_loop ?r1 (drop ?btg a @ b)"
        using Receive_loop_header_complete [OF True n8 fits'] fits by simp
      have R: "Receive_loop r a = Receive_loop ?r1 (drop ?btg a)"
        using Receive_loop_header_complete [OF True n8 fits] by simp
      from "1.IH"(1) [OF True n8' fits ok1] L R show ?thesis by simp
    next
      case short: False
      then have la: "length a < ?btg" by simp
      let ?r' = "r\<lparr>rx_header := memcpy_at (rx_header r) (nread r) a,
                   nread := nread r + length a\<rparr>"
      have R: "Receive_loop r a = Inr ?r'"
        by (rule Receive_loop_header_partial [OF True n8 short])
      have m': "mode ?r' = HEADER" using True by simp
      have n': "nread ?r' \<le> 8" using la by simp
      have inb: "nread r + length a \<le> length (rx_header r)" using la len by simp
      have "Receive_loop r (a @ b) = Receive_loop ?r' b"
      proof (cases "?btg \<le> length (a @ b)")
        case c: True
        then have c': "8 - nread ?r' \<le> length b" using la by simp
        have tk: "take ?btg (a @ b) = a @ take (8 - nread ?r') b" using la by simp
        have dr: "drop ?btg (a @ b) = drop (8 - nread ?r') b" using la by simp
        have mm: "memcpy_at (rx_header ?r') (nread ?r') (take (8 - nread ?r') b)
                  = memcpy_at (rx_header r) (nread r) (take ?btg (a @ b))"
          using memcpy_at_append [OF inb, of "take (8 - nread ?r') b"] tk by simp
        show ?thesis
          by (simp only: Receive_loop_header_complete [OF True n8 c]
                Receive_loop_header_complete [OF m' n' c'] mm dr)
             simp
      next
        case c: False
        then have c': "\<not> 8 - nread ?r' \<le> length b" using la by simp
        have mm: "memcpy_at (rx_header ?r') (nread ?r') b = memcpy_at (rx_header r) (nread r) (a @ b)"
          using memcpy_at_append [OF inb, of b] by simp
        show ?thesis
          by (simp only: Receive_loop_header_partial [OF True n8 c]
                Receive_loop_header_partial [OF m' n' c'] mm)
             simp
      qed
      with R show ?thesis by simp
    qed
  next
    case False
    then have B: "mode r = BODY" by (rule mode_cases)
    from "1.prems" False have len: "length (rx_body r) = unat (rx_size r)"
      and n8: "nread r \<le> unat (rx_size r)"
      and hl: "length (rx_header r) = 8"
      by (simp_all add: rx_ok_def)
    then have n8': "\<not> unat (rx_size r) < nread r" by simp
    let ?btg = "unat (rx_size r) - nread r"
    show ?thesis
    proof (cases "?btg \<le> length a")
      case fits: True
      let ?bd = "memcpy_at (rx_body r) (nread r) (take ?btg a)"
      let ?r1 = "r\<lparr>rx_body := ?bd, nread := 0,
                   dispatched := dispatched r @
                     [\<lparr>msg_kind = rx_kind r, msg_size = rx_size r, msg_body = ?bd\<rparr>],
                   mode := HEADER\<rparr>"
      have ok1: "rx_ok ?r1" using hl by (simp add: rx_ok_def)
      have fits': "?btg \<le> length (a @ b)" using fits by simp
      have L: "Receive_loop r (a @ b) = Receive_loop ?r1 (drop ?btg a @ b)"
        using Receive_loop_body_complete [OF B n8 fits'] fits by simp
      have R: "Receive_loop r a = Receive_loop ?r1 (drop ?btg a)"
        using Receive_loop_body_complete [OF B n8 fits] by simp
      from "1.IH"(2) [OF False n8' fits ok1] L R show ?thesis by simp
    next
      case short: False
      then have la: "length a < ?btg" by simp
      let ?r' = "r\<lparr>rx_body := memcpy_at (rx_body r) (nread r) a,
                   nread := nread r + length a\<rparr>"
      have R: "Receive_loop r a = Inr ?r'"
        by (rule Receive_loop_body_partial [OF B n8 short])
      have m': "mode ?r' = BODY" using B by simp
      have sz: "rx_size ?r' = rx_size r" and kd: "rx_kind ?r' = rx_kind r"
        by (simp_all add: rx_size_def rx_kind_def)
      have n': "nread ?r' \<le> unat (rx_size ?r')" using la by (simp add: sz)
      have inb: "nread r + length a \<le> length (rx_body r)" using la len by simp
      have "Receive_loop r (a @ b) = Receive_loop ?r' b"
      proof (cases "?btg \<le> length (a @ b)")
        case c: True
        then have c': "unat (rx_size ?r') - nread ?r' \<le> length b" using la by (simp add: sz)
        have tk: "take ?btg (a @ b) = a @ take (unat (rx_size ?r') - nread ?r') b"
          using la by (simp add: sz)
        have dr: "drop ?btg (a @ b) = drop (unat (rx_size ?r') - nread ?r') b"
          using la by (simp add: sz)
        have mm: "memcpy_at (rx_body ?r') (nread ?r') (take (unat (rx_size ?r') - nread ?r') b)
                  = memcpy_at (rx_body r) (nread r) (take ?btg (a @ b))"
          using memcpy_at_append [OF inb, of "take (unat (rx_size ?r') - nread ?r') b"] tk
          by simp
        show ?thesis
          by (simp only: Receive_loop_body_complete [OF B n8 c]
                Receive_loop_body_complete [OF m' n' c'] sz kd)
             (use la in \<open>simp add: memcpy_at_append [OF inb]\<close>)
      next
        case c: False
        then have c': "\<not> unat (rx_size ?r') - nread ?r' \<le> length b" using la by (simp add: sz)
        have mm: "memcpy_at (rx_body ?r') (nread ?r') b = memcpy_at (rx_body r) (nread r) (a @ b)"
          using memcpy_at_append [OF inb, of b] by simp
        show ?thesis
          by (simp only: Receive_loop_body_partial [OF B n8 c]
                Receive_loop_body_partial [OF m' n' c'] mm)
             simp
      qed
      with R show ?thesis by simp
    qed
  qed
qed

lemma Receive_loop_waiting:
  "rx_ok r \<Longrightarrow> \<exists>r'. Receive_loop r buf = Inr r' \<and> rx_waiting r'"
proof (induction r buf rule: Receive_loop.induct)
  case (1 r buf)
  show ?case
  proof (cases "mode r = HEADER")
    case True
    from "1.prems" True have len: "length (rx_header r) = 8" and n8: "nread r \<le> 8"
      by (simp_all add: rx_ok_def)
    then have n8': "\<not> 8 < nread r" by simp
    show ?thesis
    proof (cases "8 - nread r \<le> length buf")
      case fits: True
      let ?h = "memcpy_at (rx_header r) (nread r) (take (8 - nread r) buf)"
      let ?r1 = "r\<lparr>rx_header := ?h, nread := 0,
                   rx_body := replicate (unat (bytes_u32 (drop 4 ?h))) 0, mode := BODY\<rparr>"
      have lh: "length ?h = 8" using len n8 fits by (simp add: length_memcpy_at)
      have ok1: "rx_ok ?r1" using lh by (simp add: rx_ok_def rx_size_def)
      from "1.IH"(1) [OF True n8' fits ok1] Receive_loop_header_complete [OF True n8 fits]
      show ?thesis by simp
    next
      case short: False
      let ?r' = "r\<lparr>rx_header := memcpy_at (rx_header r) (nread r) buf,
                   nread := nread r + length buf\<rparr>"
      have "rx_waiting ?r'"
        using short len n8 True by (auto simp: rx_waiting_def rx_ok_def length_memcpy_at)
      with Receive_loop_header_partial [OF True n8 short] show ?thesis by simp
    qed
  next
    case False
    then have B: "mode r = BODY" by (rule mode_cases)
    from "1.prems" False have len: "length (rx_body r) = unat (rx_size r)"
      and n8: "nread r \<le> unat (rx_size r)"
      and hl: "length (rx_header r) = 8"
      by (simp_all add: rx_ok_def)
    then have n8': "\<not> unat (rx_size r) < nread r" by simp
    show ?thesis
    proof (cases "unat (rx_size r) - nread r \<le> length buf")
      case fits: True
      let ?bd = "memcpy_at (rx_body r) (nread r) (take (unat (rx_size r) - nread r) buf)"
      let ?r1 = "r\<lparr>rx_body := ?bd, nread := 0,
                   dispatched := dispatched r @
                     [\<lparr>msg_kind = rx_kind r, msg_size = rx_size r, msg_body = ?bd\<rparr>],
                   mode := HEADER\<rparr>"
      have ok1: "rx_ok ?r1" using hl by (simp add: rx_ok_def)
      from "1.IH"(2) [OF False n8' fits ok1] Receive_loop_body_complete [OF B n8 fits]
      show ?thesis by simp
    next
      case short: False
      let ?r' = "r\<lparr>rx_body := memcpy_at (rx_body r) (nread r) buf,
                   nread := nread r + length buf\<rparr>"
      have "rx_size ?r' = rx_size r" by (simp add: rx_size_def)
      then have "rx_waiting ?r'"
        using short len n8 hl B by (auto simp: rx_waiting_def rx_ok_def length_memcpy_at)
      with Receive_loop_body_partial [OF B n8 short] show ?thesis by simp
    qed
  qed
qed

lemma Receive_loop_Nil: "rx_waiting r \<Longrightarrow> Receive_loop r [] = Inr r"
proof (cases "mode r = HEADER")
  case True
  assume w: "rx_waiting r"
  with True have n: "nread r \<le> 8" "\<not> 8 - nread r \<le> length ([] :: byte list)"
    and l: "nread r \<le> length (rx_header r)"
    by (simp_all add: rx_waiting_def rx_ok_def)
  from Receive_loop_header_partial [OF True n] l show ?thesis
    by (simp add: memcpy_at_Nil)
next
  case False
  assume w: "rx_waiting r"
  from False have B: "mode r = BODY" by (rule mode_cases)
  from w False have n: "nread r \<le> unat (rx_size r)"
    "\<not> unat (rx_size r) - nread r \<le> length ([] :: byte list)"
    and l: "nread r \<le> length (rx_body r)"
    by (simp_all add: rx_waiting_def rx_ok_def)
  from Receive_loop_body_partial [OF B n] l show ?thesis
    by (simp add: memcpy_at_Nil)
qed

lemma rx_waiting_ok: "rx_waiting r \<Longrightarrow> rx_ok r"
  by (simp add: rx_waiting_def)

lemma Receive_all_concat:
  "rx_waiting r \<Longrightarrow> Receive_all r chunks = Receive_loop r (concat chunks)"
proof (induction chunks arbitrary: r)
  case Nil
  then show ?case by (simp add: Receive_loop_Nil)
next
  case (Cons c cs)
  from Receive_loop_waiting [OF rx_waiting_ok [OF Cons.prems], of c]
  obtain r' where r': "Receive_loop r c = Inr r'" and w': "rx_waiting r'" by blast
  have rc: "Receive r c = Inr r'"
    using r' Receive_loop_Nil [OF Cons.prems] by (cases "c = []") (simp_all add: Receive_def)
  have "Receive_loop r (c @ concat cs) = Receive_loop r' (concat cs)"
    using Receive_loop_append [OF rx_waiting_ok [OF Cons.prems], of c "concat cs"] r' by simp
  with rc Cons.IH [OF w'] show ?case by simp
qed

lemma Message_eta:
  "\<lparr>msg_kind = msg_kind m, msg_size = msg_size m, msg_body = msg_body m\<rparr> = m"
  by (cases m) simp

lemma Receive_loop_message:
  assumes ok: "rx_ok r" and m: "mode r = HEADER" and n: "nread r = 0" and wf: "wf_message msg"
  shows "Receive_loop r (encode msg @ rest) =
           Receive_loop
             (r\<lparr>rx_header := header_bytes msg, rx_body := msg_body msg, nread := 0,
                dispatched := dispatched r @ [msg], mode := HEADER\<rparr>)
             rest"
proof -
  from ok have len: "length (rx_header r) = 8" by (simp add: rx_ok_def)
  have n8: "nread r \<le> 8" using n by simp
  have fits: "8 - nread r \<le> length (encode msg @ rest)"
    by (simp add: encode_def length_header_bytes)
  have tk: "take (8 - nread r) (encode msg @ rest) = header_bytes msg"
    by (simp add: n encode_def length_header_bytes)
  have dr: "drop (8 - nread r) (encode msg @ rest) = msg_body msg @ rest"
    by (simp add: n encode_def length_header_bytes)
  have h: "memcpy_at (rx_header r) (nread r) (header_bytes msg) = header_bytes msg"
    using len by (simp add: n memcpy_at_whole length_header_bytes)
  have sz: "bytes_u32 (drop 4 (header_bytes msg)) = msg_size msg"
    by (simp add: header_bytes_def length_u32_bytes bytes_u32_u32_bytes)
  have kd: "bytes_u32 (take 4 (header_bytes msg)) = msg_kind msg"
    by (simp add: header_bytes_def length_u32_bytes bytes_u32_u32_bytes)
  let ?r1 = "r\<lparr>rx_header := header_bytes msg, nread := 0,
               rx_body := replicate (unat (msg_size msg)) 0, mode := BODY\<rparr>"
  have s1: "Receive_loop r (encode msg @ rest) = Receive_loop ?r1 (msg_body msg @ rest)"
    by (simp only: Receive_loop_header_complete [OF m n8 fits] tk dr h sz)
  have B: "mode ?r1 = BODY" by simp
  have rs: "rx_size ?r1 = msg_size msg" and rk: "rx_kind ?r1 = msg_kind msg"
    by (simp_all add: rx_size_def rx_kind_def sz kd)
  have lb: "length (msg_body msg) = unat (msg_size msg)" using wf by (simp add: wf_message_def)
  have nb: "nread ?r1 \<le> unat (rx_size ?r1)" by simp
  have fb: "unat (rx_size ?r1) - nread ?r1 \<le> length (msg_body msg @ rest)"
    by (simp add: rs lb)
  have tb: "take (unat (rx_size ?r1) - nread ?r1) (msg_body msg @ rest) = msg_body msg"
    by (simp add: rs lb)
  have db: "drop (unat (rx_size ?r1) - nread ?r1) (msg_body msg @ rest) = rest"
    by (simp add: rs lb)
  have bd: "memcpy_at (rx_body ?r1) (nread ?r1) (msg_body msg) = msg_body msg"
    by (simp add: memcpy_at_whole lb)
  have "Receive_loop ?r1 (msg_body msg @ rest) =
          Receive_loop
            (?r1\<lparr>rx_body := msg_body msg, nread := 0,
                 dispatched := dispatched ?r1 @
                   [\<lparr>msg_kind = msg_kind msg, msg_size = msg_size msg, msg_body = msg_body msg\<rparr>],
                 mode := HEADER\<rparr>)
            rest"
    using Receive_loop_body_complete [OF B nb fb]
    by (simp add: rs rk lb memcpy_at_whole)
  with s1 show ?thesis by (simp add: Message_eta)
qed

lemma Receive_loop_messages:
  assumes "rx_ok r" and "mode r = HEADER" and "nread r = 0" and "list_all wf_message msgs"
  shows "\<exists>r'. Receive_loop r (concat (map encode msgs)) = Inr r' \<and>
              dispatched r' = dispatched r @ msgs \<and> mode r' = HEADER \<and> nread r' = 0"
  using assms
proof (induction msgs arbitrary: r)
  case Nil
  then have "rx_waiting r" by (simp add: rx_waiting_def)
  from Receive_loop_Nil [OF this] Nil show ?case by simp
next
  case (Cons msg msgs)
  from Cons.prems have wf: "wf_message msg" and rest: "list_all wf_message msgs" by simp_all
  let ?r1 = "r\<lparr>rx_header := header_bytes msg, rx_body := msg_body msg, nread := 0,
                dispatched := dispatched r @ [msg], mode := HEADER\<rparr>"
  have ok1: "rx_ok ?r1" by (simp add: rx_ok_def length_header_bytes)
  have step: "Receive_loop r (concat (map encode (msg # msgs)))
                = Receive_loop ?r1 (concat (map encode msgs))"
    using Receive_loop_message [OF Cons.prems(1,2,3) wf, of "concat (map encode msgs)"] by simp
  from Cons.IH [OF ok1 _ _ rest] obtain r' where
    "Receive_loop ?r1 (concat (map encode msgs)) = Inr r'"
    "dispatched r' = dispatched ?r1 @ msgs" "mode r' = HEADER" "nread r' = 0"
    by auto
  with step show ?case by simp
qed

text \<open>
  C1.  Let the write buffer have at least eight bytes, and let a connection send any
  sequence of well-formed messages, with flushes of the buffer anywhere in between.  The
  sender does not fault, and when its last bytes are flushed, the byte stream on the wire,
  cut into chunks at any byte boundaries (empty chunks included) and fed to \<open>Receive\<close>
  chunk by chunk, makes the receiver dispatch exactly the messages sent, in order, each
  with the same kind, size and body, and leaves it waiting for the next header.
\<close>

theorem framing_round_trip:
  assumes "8 \<le> w" and "list_all wf_message (sent_messages ops)"
  shows "\<exists>s. run_sender ops (Sender_new w) = Inr s \<and>
             (\<forall>chunks. concat chunks = concat (wire (Flush s)) \<longrightarrow>
                (\<exists>r. Receive_all Receiver_new chunks = Inr r \<and>
                     dispatched r = sent_messages ops \<and> mode r = HEADER \<and> nread r = 0))"
proof -
  have i: "nwritten (Sender_new w) \<le> length (buffer (Sender_new w))"
    and l: "8 \<le> length (buffer (Sender_new w))"
    using assms(1) by (simp_all add: Sender_new_def)
  from run_sender_out_stream [OF i l assms(2)] obtain s where
    run: "run_sender ops (Sender_new w) = Inr s" and
    out: "out_stream s = out_stream (Sender_new w) @ concat (map encode (sent_messages ops))"
    by blast
  have stream: "concat (wire (Flush s)) = concat (map encode (sent_messages ops))"
    using out by (simp add: Flush_pending out_stream_def pending_def Sender_new_def)
  have w0: "rx_waiting Receiver_new" and ok0: "rx_ok Receiver_new"
    by (simp_all add: rx_waiting_def rx_ok_def Receiver_new_def)
  have "\<exists>r. Receive_all Receiver_new chunks = Inr r \<and>
             dispatched r = sent_messages ops \<and> mode r = HEADER \<and> nread r = 0"
    if c: "concat chunks = concat (wire (Flush s))" for chunks
  proof -
    have "Receive_all Receiver_new chunks
            = Receive_loop Receiver_new (concat (map encode (sent_messages ops)))"
      using Receive_all_concat [OF w0, of chunks] c stream by simp
    moreover from Receive_loop_messages [OF ok0 _ _ assms(2)]
    obtain r where "Receive_loop Receiver_new (concat (map encode (sent_messages ops))) = Inr r"
      "dispatched r = dispatched Receiver_new @ sent_messages ops" "mode r = HEADER" "nread r = 0"
      by (auto simp: Receiver_new_def)
    ultimately show ?thesis by (auto simp: Receiver_new_def)
  qed
  with run show ?thesis by blast
qed

theorem framing_round_trip_witness:
  "8 \<le> (8 :: nat) \<and>
   list_all wf_message
     (sent_messages
        [DoSend \<lparr>msg_kind = 1, msg_size = 0, msg_body = []\<rparr>, DoFlush,
         DoSend \<lparr>msg_kind = 300, msg_size = 4, msg_body = [1, 2, 3, 4]\<rparr>]) \<and>
   (case Receive_all Receiver_new
           [[1, 0, 0, 0, 0, 0, 0], [0, 44, 1, 0, 0, 4, 0], [], [0, 0, 1, 2, 3, 4]] of
      Inl e \<Rightarrow> False
    | Inr r \<Rightarrow>
        dispatched r = [\<lparr>msg_kind = 1, msg_size = 0, msg_body = []\<rparr>,
                        \<lparr>msg_kind = 300, msg_size = 4, msg_body = [1, 2, 3, 4]\<rparr>])"
proof -
  let ?m1 = "\<lparr>msg_kind = 1, msg_size = 0, msg_body = []\<rparr>"
  let ?m2 = "\<lparr>msg_kind = 300, msg_size = 4, msg_body = [1, 2, 3, 4]\<rparr>"
  let ?ops = "[DoSend ?m1, DoFlush, DoSend ?m2]"
  let ?chunks = "[[1, 0, 0, 0, 0, 0, 0], [0, 44, 1, 0, 0, 4, 0], [], [0, 0, 1, 2, 3, 4]] :: byte list list"
  have w: "8 \<le> (8 :: nat)" by simp
  have wf: "list_all wf_message (sent_messages ?ops)" by (simp add: wf_message_def)
  from framing_round_trip [OF w wf] obtain s where
    run: "run_sender ?ops (Sender_new 8) = Inr s" and
    all: "\<forall>chunks. concat chunks = concat (wire (Flush s)) \<longrightarrow>
            (\<exists>r. Receive_all Receiver_new chunks = Inr r \<and>
                 dispatched r = sent_messages ?ops \<and> mode r = HEADER \<and> nread r = 0)"
    by blast
  have i: "nwritten (Sender_new 8) \<le> length (buffer (Sender_new 8))"
    and l: "8 \<le> length (buffer (Sender_new 8))"
    by (simp_all add: Sender_new_def)
  from run_sender_out_stream [OF i l wf] run
  have "out_stream s = out_stream (Sender_new 8) @ concat (map encode (sent_messages ?ops))"
    by auto
  then have "concat (wire (Flush s)) = encode ?m1 @ encode ?m2"
    by (simp add: Flush_pending out_stream_def pending_def Sender_new_def)
  also have "\<dots> = concat ?chunks"
    by (simp add: encode_def header_bytes_def u32_bytes_def)
  finally have "concat ?chunks = concat (wire (Flush s))" by simp
  with all obtain r where "Receive_all Receiver_new ?chunks = Inr r"
    and "dispatched r = sent_messages ?ops"
    by blast
  with w wf show ?thesis by simp
qed

section \<open>The mesh handoff\<close>

subsection \<open>What each step does to the shared state\<close>

lemma get_node_library_nodes:
  "nodes (library a) = nodes (library b) \<Longrightarrow> get_node a i = get_node b i"
  by (simp add: get_node_def)

lemma get_node_handoff_updates:
  "get_node (s\<lparr>mesh_read := a\<rparr>) i = get_node s i"
  "get_node (s\<lparr>mesh_synced := a\<rparr>) i = get_node s i"
  "get_node (s\<lparr>sync_idle := b\<rparr>) i = get_node s i"
  "get_node (s\<lparr>current_mesh_id := c\<rparr>) i = get_node s i"
  by (simp_all add: get_node_def)

lemma StoreMesh_nodes: "StoreMesh l ident mesh = Inr l' \<Longrightarrow> nodes l' = nodes l"
  by (auto simp: StoreMesh_def split: sum.splits option.splits if_splits)

lemma SyncMesh_wait_Some:
  "SyncMesh_wait s = Some e' \<Longrightarrow> 0 < mesh_synced s \<and> e' = s\<lparr>mesh_synced := mesh_synced s - 1\<rparr>"
  by (simp add: SyncMesh_wait_def split: if_splits)

lemma SyncMesh_publish_Inr:
  assumes "SyncMesh_publish m s = Inr e'"
  shows "nodes (library e') = nodes (library s)" and "mesh_read e' = mesh_read s"
    and "mesh_synced e' = mesh_synced s" and "sync_idle e' = sync_idle s"
  using assms
  by (auto simp: SyncMesh_publish_def dest: StoreMesh_nodes split: option.splits sum.splits)

lemma for_each_node_handoff_fields:
  "mesh_read (for_each_node f s) = mesh_read s"
  "mesh_synced (for_each_node f s) = mesh_synced s"
  "current_mesh_id (for_each_node f s) = current_mesh_id s"
  "sync_idle (for_each_node f s) = sync_idle s"
  by (simp_all add: for_each_node_def set_nodes_def)

lemma set_node_handoff_fields:
  "mesh_read (set_node i n s) = mesh_read s"
  "mesh_synced (set_node i n s) = mesh_synced s"
  "current_mesh_id (set_node i n s) = current_mesh_id s"
  "sync_idle (set_node i n s) = sync_idle s"
  by (simp_all add: set_node_def set_nodes_def)

text \<open>The three outcomes of a run of the idle handler that returns.\<close>

lemma OnSyncIdle_Inr:
  assumes "OnSyncIdle route s = Inr e'"
  obtains
    (nothing) "mesh_read s = 0" and "e' = s" and "mesh_sent route s = []"
  | (finished) "0 < mesh_read s" and "current_mesh_id s = 0" and "mesh_sent route s = []"
      and "e' = (for_each_node (\<lambda>ident node. SendCamera (node\<lparr>state := SYNCING_CAMERA\<rparr>))
                   (s\<lparr>mesh_read := mesh_read s - 1\<rparr>))\<lparr>sync_idle := False\<rparr>"
  | (sent) mesh node where "0 < mesh_read s" and "current_mesh_id s \<noteq> 0"
      and "LookupMesh (library s) (current_mesh_id s) = Some mesh"
      and "get_node s (unat (route (s\<lparr>mesh_read := mesh_read s - 1\<rparr>) mesh)) = Some node"
      and "mesh_sent route s
           = [(unat (route (s\<lparr>mesh_read := mesh_read s - 1\<rparr>) mesh), current_mesh_id s)]"
      and "e' = set_node (unat (route (s\<lparr>mesh_read := mesh_read s - 1\<rparr>) mesh))
                  (SendMesh (current_mesh_id s) node) (s\<lparr>mesh_read := mesh_read s - 1\<rparr>)"
proof (cases "mesh_read s = 0")
  case True
  with assms have e: "e' = s" by (simp add: OnSyncIdle_def)
  from True have "mesh_sent route s = []" by (simp add: mesh_sent_def)
  with True e show ?thesis by (rule nothing)
next
  case r: False
  show ?thesis
  proof (cases "current_mesh_id s = 0")
    case True
    with assms r have e:
      "e' = (for_each_node (\<lambda>ident node. SendCamera (node\<lparr>state := SYNCING_CAMERA\<rparr>))
               (s\<lparr>mesh_read := mesh_read s - 1\<rparr>))\<lparr>sync_idle := False\<rparr>"
      by (simp add: OnSyncIdle_def Let_def)
    from True have ms: "mesh_sent route s = []" by (simp add: mesh_sent_def)
    from r have "0 < mesh_read s" by simp
    then show ?thesis using True ms e by (rule finished)
  next
    case c: False
    from assms r c obtain mesh where m: "LookupMesh (library s) (current_mesh_id s) = Some mesh"
      by (auto simp: OnSyncIdle_def Let_def split: option.splits)
    from assms r c m obtain node where
      n: "get_node (s\<lparr>mesh_read := mesh_read s - 1\<rparr>)
            (unat (route (s\<lparr>mesh_read := mesh_read s - 1\<rparr>) mesh)) = Some node"
      by (auto simp: OnSyncIdle_def Let_def split: option.splits)
    from n have n': "get_node s (unat (route (s\<lparr>mesh_read := mesh_read s - 1\<rparr>) mesh)) = Some node"
      by (simp only: get_node_handoff_updates)
    from assms r c m n have
      "e' = set_node (unat (route (s\<lparr>mesh_read := mesh_read s - 1\<rparr>) mesh))
              (SendMesh (current_mesh_id s) node) (s\<lparr>mesh_read := mesh_read s - 1\<rparr>)"
      by (simp add: OnSyncIdle_def Let_def)
    moreover from r c m have
      "mesh_sent route s
       = [(unat (route (s\<lparr>mesh_read := mesh_read s - 1\<rparr>) mesh), current_mesh_id s)]"
      by (simp add: mesh_sent_def)
    moreover from r have "0 < mesh_read s" by simp
    ultimately show ?thesis using c m n' by (intro sent [where mesh = mesh and node = node])
  qed
qed

text \<open>An OK from a worker in SYNCING\_ASSETS posts \<open>mesh_synced\<close> and changes no node.\<close>

lemma OnOK_SYNCING_ASSETS:
  assumes "get_node s i = Some node" and "state node = SYNCING_ASSETS" and "OnOK i s = Inr e'"
  shows "mesh_synced e' = Suc (mesh_synced s)" and "mesh_read e' = mesh_read s"
    and "sync_idle e' = sync_idle s" and "current_mesh_id e' = current_mesh_id s"
    and "nodes (library e') = nodes (library s)"
  using assms by (auto simp: OnOK_def dest: StoreMesh_nodes split: sum.splits)

subsection \<open>The invariant\<close>

text \<open>With at most one token, a token in one place leaves every other place empty.\<close>

lemma one_token_mesh_synced:
  assumes "tokens h \<le> 1" and "0 < mesh_synced (eng h)"
  shows "in_flight h = []" and "mesh_read (eng h) = 0" and "mesh_synced (eng h) = 1"
    and "pc h \<noteq> Publishing" and "pc h \<noteq> Posting"
  using assms by (cases "in_flight h"; auto simp: tokens_def split: if_splits)+

lemma one_token_mesh_read:
  assumes "tokens h \<le> 1" and "0 < mesh_read (eng h)"
  shows "in_flight h = []" and "mesh_read (eng h) = 1" and "mesh_synced (eng h) = 0"
    and "pc h \<noteq> Publishing" and "pc h \<noteq> Posting"
  using assms by (cases "in_flight h"; auto simp: tokens_def split: if_splits)+

lemma one_token_producer:
  assumes "tokens h \<le> 1" and "pc h = Publishing \<or> pc h = Posting"
  shows "in_flight h = []" and "mesh_read (eng h) = 0" and "mesh_synced (eng h) = 0"
  using assms by (cases "in_flight h"; auto simp: tokens_def split: if_splits)+

lemma one_token_in_flight:
  assumes "tokens h \<le> 1" and "in_flight h \<noteq> []"
  shows "length (in_flight h) = 1" and "mesh_read (eng h) = 0" and "mesh_synced (eng h) = 0"
    and "pc h \<noteq> Publishing" and "pc h \<noteq> Posting"
  using assms by (cases "in_flight h"; auto simp: tokens_def split: if_splits)+

lemma handoff_inv_initial: "handoff_initial h \<Longrightarrow> handoff_inv h"
  by (simp add: handoff_initial_def handoff_inv_def tokens_def)

lemma handoff_inv_producer_wait:
  assumes inv: "handoff_inv h" and pc: "pc h = Waiting" and w: "SyncMesh_wait (eng h) = Some e'"
  shows "handoff_inv (h\<lparr>eng := e', pc := Publishing\<rparr>)"
proof -
  from SyncMesh_wait_Some [OF w] have pos: "0 < mesh_synced (eng h)"
    and e': "e' = (eng h)\<lparr>mesh_synced := mesh_synced (eng h) - 1\<rparr>" by simp_all
  from inv have tk: "tokens h \<le> 1" by (simp add: handoff_inv_def)
  note o = one_token_mesh_synced [OF tk pos]
  note nil = o(1)
  from o have "tokens (h\<lparr>eng := e', pc := Publishing\<rparr>) \<le> 1"
    by (simp add: tokens_def e')
  moreover have "get_node e' i = get_node (eng h) i" for i by (simp add: e' get_node_def)
  moreover have "sync_idle e' = sync_idle (eng h)" "nodes (library e') = nodes (library (eng h))"
    by (simp_all add: e')
  ultimately show ?thesis using inv nil by (simp add: handoff_inv_def)
qed

lemma handoff_inv_producer_publish:
  assumes inv: "handoff_inv h" and pc: "pc h = Publishing"
    and p: "SyncMesh_publish m (eng h) = Inr e'"
  shows "handoff_inv (h\<lparr>eng := e', pc := Posting\<rparr>)"
proof -
  note f = SyncMesh_publish_Inr [OF p]
  from inv have tk: "tokens h \<le> 1" by (simp add: handoff_inv_def)
  from pc have "pc h = Publishing \<or> pc h = Posting" by simp
  note o = one_token_producer [OF tk this]
  note nil = o(1)
  from o have "tokens (h\<lparr>eng := e', pc := Posting\<rparr>) \<le> 1"
    by (simp add: tokens_def f)
  moreover have "get_node e' i = get_node (eng h) i" for i
    by (rule get_node_library_nodes) (rule f)
  ultimately show ?thesis using inv nil by (simp add: handoff_inv_def f)
qed

lemma handoff_inv_producer_post:
  assumes inv: "handoff_inv h" and pc: "pc h = Posting"
  shows "handoff_inv (h\<lparr>eng := SyncMesh_post (eng h), script := rest,
                        pc := (if rest = [] then Finished else Waiting)\<rparr>)"
proof -
  from inv have tk: "tokens h \<le> 1" by (simp add: handoff_inv_def)
  from pc have "pc h = Publishing \<or> pc h = Posting" by simp
  note o = one_token_producer [OF tk this]
  note nil = o(1)
  from o have
    "tokens (h\<lparr>eng := SyncMesh_post (eng h), script := rest,
              pc := (if rest = [] then Finished else Waiting)\<rparr>) \<le> 1"
    by (simp add: tokens_def SyncMesh_post_def)
  moreover have "get_node (SyncMesh_post (eng h)) i = get_node (eng h) i" for i
    by (simp add: SyncMesh_post_def get_node_def)
  ultimately show ?thesis using inv nil by (simp add: handoff_inv_def SyncMesh_post_def)
qed

lemma handoff_inv_reactor_idle:
  assumes inv: "handoff_inv h" and idle: "sync_idle (eng h)"
    and r: "OnSyncIdle route (eng h) = Inr e'"
  shows "handoff_inv (h\<lparr>eng := e', in_flight := in_flight h @ mesh_sent route (eng h)\<rparr>)"
  using r
proof (cases rule: OnSyncIdle_Inr)
  case nothing
  with inv show ?thesis by (simp add: handoff_inv_def tokens_def)
next
  case finished
  from inv have tk: "tokens h \<le> 1" by (simp add: handoff_inv_def)
  note o = one_token_mesh_read [OF tk finished(1)]
  note nil = o(1) and one = o(2) and z = o(3) and pc = o(4) o(5)
  have "get_node e' 0 = get_node (eng h) 0"
    unfolding finished(4) by (simp add: get_node_def nodes_for_each_node)
  with inv nil pc one z finished(3) show ?thesis
    by (simp add: handoff_inv_def tokens_def finished(4) for_each_node_handoff_fields)
next
  case (sent mesh node)
  define j where "j = unat (route ((eng h)\<lparr>mesh_read := mesh_read (eng h) - 1\<rparr>) mesh)"
  define s1 where "s1 = (eng h)\<lparr>mesh_read := mesh_read (eng h) - 1\<rparr>"
  from inv have tk: "tokens h \<le> 1" by (simp add: handoff_inv_def)
  note o = one_token_mesh_read [OF tk sent(1)]
  note nil = o(1) and one = o(2) and z = o(3) and pc = o(4) o(5)
  have e': "e' = set_node j (SendMesh (current_mesh_id (eng h)) node) s1"
    using sent(6) by (simp add: j_def s1_def)
  have g: "get_node s1 i = get_node (eng h) i" for i by (simp add: s1_def get_node_def)
  from sent(4) have gj: "get_node s1 j = Some node" by (simp add: g j_def)
  then have jlt: "j < length (nodes (library s1))" by (simp add: get_node_def split: if_splits)
  have j0: "j \<noteq> 0"
  proof
    assume "j = 0"
    with gj have "get_node (eng h) 0 = Some node" by (simp add: g)
    with inv show False by (simp add: handoff_inv_def)
  qed
  have f: "mesh_read e' = 0" "mesh_synced e' = 0" "sync_idle e' = sync_idle (eng h)"
    "current_mesh_id e' = current_mesh_id (eng h)"
    using one z by (simp_all add: e' set_node_handoff_fields s1_def)
  have t: "tokens (h\<lparr>eng := e', in_flight := in_flight h @ mesh_sent route (eng h)\<rparr>) \<le> 1"
    using pc nil by (simp add: tokens_def f sent(5))
  have g0: "get_node e' 0 = None"
    using inv j0 by (simp add: e' get_node_set_node g handoff_inv_def)
  have gj': "get_node e' j \<noteq> None" using jlt by (simp add: e' get_node_set_node)
  have all: "list_all (\<lambda>node. state node = SYNCING_ASSETS) (net_nodes (nodes (library e')))"
    if "sync_idle (eng h)"
  proof -
    from inv that have a: "list_all (\<lambda>node. state node = SYNCING_ASSETS) (net_nodes (nodes (library s1)))"
      by (simp add: handoff_inv_def s1_def)
    from j0 gj have "node \<in> set (net_nodes (nodes (library s1)))"
      by (intro get_node_in_net_nodes [where i = j]) simp_all
    with a have "state node = SYNCING_ASSETS" by (simp add: list_all_iff)
    then have "state (SendMesh (current_mesh_id (eng h)) node) = SYNCING_ASSETS"
      by (simp add: SendMesh_def)
    with a show ?thesis unfolding e' by (rule list_all_net_nodes_set_node)
  qed
  show ?thesis
    using t g0 gj' all idle nil by (simp add: handoff_inv_def f sent(5) j_def)
qed

lemma handoff_inv_reactor_ok:
  assumes inv: "handoff_inv h" and x: "(i, m) \<in> set (in_flight h)"
    and ok: "OnOK i (eng h) = Inr e'"
  shows "handoff_inv (h\<lparr>eng := e', in_flight := remove1 (i, m) (in_flight h)\<rparr>)"
    and "mesh_synced e' = 1"
proof -
  from inv have tk: "tokens h \<le> 1" by (simp add: handoff_inv_def)
  from x have ne: "in_flight h \<noteq> []" by auto
  note o = one_token_in_flight [OF tk ne]
  from o(1) x have fl: "in_flight h = [(i, m)]" by (cases "in_flight h") auto
  from inv x obtain node where g: "get_node (eng h) i = Some node"
    by (auto simp: handoff_inv_def)
  from inv have g0: "get_node (eng h) 0 = None" by (simp add: handoff_inv_def)
  with g have i: "Suc 0 \<le> i" by (cases i) auto
  from inv ne have idle: "sync_idle (eng h)" by (simp add: handoff_inv_def)
  with inv have all:
    "list_all (\<lambda>node. state node = SYNCING_ASSETS) (net_nodes (nodes (library (eng h))))"
    by (simp add: handoff_inv_def)
  from get_node_in_net_nodes [OF i g] all have st: "state node = SYNCING_ASSETS"
    by (simp add: list_all_iff)
  note f = OnOK_SYNCING_ASSETS [OF g st ok]
  from f(1) o(3) show "mesh_synced e' = 1" by simp
  have gn: "get_node e' k = get_node (eng h) k" for k
    by (rule get_node_library_nodes) (rule f)
  from o have "tokens (h\<lparr>eng := e', in_flight := remove1 (i, m) (in_flight h)\<rparr>) \<le> 1"
    by (simp add: tokens_def f fl)
  with g0 all show "handoff_inv (h\<lparr>eng := e', in_flight := remove1 (i, m) (in_flight h)\<rparr>)"
    by (simp add: handoff_inv_def gn f fl)
qed

lemma handoff_inv_step:
  assumes "handoff_step route h h'" and "handoff_inv h"
  shows "handoff_inv h'"
  using assms
proof (induction rule: handoff_step.induct)
  case (producer_wait h e')
  then show ?case by (intro handoff_inv_producer_wait)
next
  case (producer_publish h m rest e')
  then show ?case by (intro handoff_inv_producer_publish [where m = m])
next
  case (producer_post h m rest)
  then show ?case by (intro handoff_inv_producer_post)
next
  case (reactor_idle h e')
  then show ?case by (intro handoff_inv_reactor_idle)
next
  case (reactor_ok i m h e')
  then show ?case by (intro handoff_inv_reactor_ok(1))
qed

lemma handoff_reachable_inv: "handoff_reachable route h \<Longrightarrow> handoff_inv h"
  by (induction rule: handoff_reachable.induct) (auto intro: handoff_inv_initial handoff_inv_step)

text \<open>\<^verbatim>\<open>StartSync\<close> leaves the semaphores and the idle handler as the handoff starts with them.\<close>

lemma StartSync_handoff:
  assumes "StartSync s = Inr s'"
  shows "mesh_read s' = 0" and "mesh_synced s' = 1" and "sync_idle s'"
    and "nodes (library s') = nodes (library s)"
  using assms
  by (auto simp: StartSync_def BuildSpatialIndex_def Let_def split: sum.splits if_splits)

text \<open>
  C6.  In every state that an interleaving of the producer's steps (\<open>SyncMesh\<close>: wait on
  \<open>mesh_synced\<close>, publish \<open>current_mesh_id\<close>, post \<open>mesh_read\<close>) and the reactor's
  steps (\<open>OnSyncIdle\<close>; \<open>OnOK\<close> for the acknowledgement of a mesh) reaches from the state
  that \<open>StartSync\<close> leaves (\<open>mesh_synced\<close> 1, \<open>mesh_read\<close> 0), at most one mesh is in
  flight.  While a mesh is in flight it is the current mesh, both semaphores are zero and
  the producer is neither publishing nor posting, so that it is blocked in, or will block
  at, \<^verbatim>\<open>sem_wait(&mesh_synced)\<close>; the handling of the acknowledgement of that mesh
  makes \<open>mesh_synced\<close> one again.  The workers are taken to send OK in this phase only
  to acknowledge a mesh they were sent, once for each mesh: the coordinator does not
  check it, and an OK that acknowledges nothing would post \<open>mesh_synced\<close> a second time.
\<close>

theorem mesh_handoff_one_in_flight:
  assumes "handoff_reachable route h"
  shows "length (in_flight h) \<le> 1 \<and>
         (in_flight h \<noteq> [] \<longrightarrow>
            SyncMesh_wait (eng h) = None \<and> mesh_read (eng h) = 0 \<and>
            pc h \<noteq> Publishing \<and> pc h \<noteq> Posting \<and>
            (\<forall>i m. (i, m) \<in> set (in_flight h) \<longrightarrow>
               m = current_mesh_id (eng h) \<and>
               (\<forall>e'. OnOK i (eng h) = Inr e' \<longrightarrow> mesh_synced e' = 1)))"
proof -
  from assms have inv: "handoff_inv h" by (rule handoff_reachable_inv)
  then have tk: "tokens h \<le> 1" by (simp add: handoff_inv_def)
  have a: "length (in_flight h) \<le> 1"
    using tk by (simp add: tokens_def split: if_splits)
  have b: "SyncMesh_wait (eng h) = None \<and> mesh_read (eng h) = 0 \<and>
           pc h \<noteq> Publishing \<and> pc h \<noteq> Posting" if "in_flight h \<noteq> []"
    using one_token_in_flight [OF tk that] by (simp add: SyncMesh_wait_def)
  have c: "m = current_mesh_id (eng h) \<and> (\<forall>e'. OnOK i (eng h) = Inr e' \<longrightarrow> mesh_synced e' = 1)"
    if x: "(i, m) \<in> set (in_flight h)" for i m
  proof
    from inv x show "m = current_mesh_id (eng h)" by (auto simp: handoff_inv_def)
    show "\<forall>e'. OnOK i (eng h) = Inr e' \<longrightarrow> mesh_synced e' = 1"
      using handoff_inv_reactor_ok(2) [OF inv x] by blast
  qed
  from a b c show ?thesis by blast
qed

theorem mesh_handoff_one_in_flight_witness:
  "(let e = (engine_new \<lparr>workers = [''a''], width = 640, runaway = 5 :: int\<rparr> 3 False)
              \<lparr>library := Library_new
                 \<lparr>materials := [None, Some \<lparr>emissive = False\<rparr>],
                  meshes := [None, Some \<lparr>mesh_id = 1, material = 1\<rparr>],
                  nodes := [None, Some (SendMesh 1 (NetNode_new\<lparr>state := SYNCING_ASSETS\<rparr>))]\<rparr>,
               sync_idle := True, mesh_read := 0, mesh_synced := 0, current_mesh_id := 1\<rparr>;
        h = \<lparr>eng = e, pc = Waiting, script = [None], in_flight = [(1, 1)]\<rparr>
    in handoff_reachable (\<lambda>s mesh. 1) h \<and> length (in_flight h) \<le> 1 \<and>
       SyncMesh_wait (eng h) = None \<and> mesh_read (eng h) = 0 \<and> current_mesh_id (eng h) = 1 \<and>
       (\<exists>e'. OnOK 1 (eng h) = Inr e' \<and> mesh_synced e' = 1))"
proof -
  let ?R = "\<lambda>(s :: int engine) (mesh :: Mesh). 1 :: 32 word"
  let ?n = "NetNode_new\<lparr>state := SYNCING_ASSETS\<rparr> :: int NetNode"
  let ?l = "Library_new\<lparr>materials := [None, Some \<lparr>emissive = False\<rparr>], nodes := [None, Some ?n]\<rparr>"
  let ?e0 = "(engine_new \<lparr>workers = [''a''], width = 640, runaway = 5 :: int\<rparr> 3 False)
               \<lparr>library := ?l, sync_idle := True, mesh_synced := 1\<rparr>"
  let ?h0 = "\<lparr>eng = ?e0, pc = Waiting, script = [Some \<lparr>mesh_id = 0, material = 1\<rparr>, None],
              in_flight = []\<rparr>"
  let ?e1 = "?e0\<lparr>mesh_synced := mesh_synced ?e0 - 1\<rparr>"
  let ?h1 = "?h0\<lparr>eng := ?e1, pc := Publishing\<rparr>"
  let ?e2 = "?e1\<lparr>library := ?l\<lparr>meshes := [None, Some \<lparr>mesh_id = 1, material = 1\<rparr>]\<rparr>,
                 current_mesh_id := 1\<rparr>"
  let ?h2 = "?h1\<lparr>eng := ?e2, pc := Posting\<rparr>"
  let ?h3 = "?h2\<lparr>eng := SyncMesh_post (eng ?h2), script := [None],
                 pc := (if [None :: Mesh option] = [] then Finished else Waiting)\<rparr>"
  let ?e4 = "set_node 1 (SendMesh 1 ?n) ((SyncMesh_post ?e2)\<lparr>mesh_read := mesh_read (SyncMesh_post ?e2) - 1\<rparr>)"
  let ?h4 = "?h3\<lparr>eng := ?e4, in_flight := in_flight ?h3 @ mesh_sent ?R (eng ?h3)\<rparr>"
  have r0: "handoff_reachable ?R ?h0"
    by (rule handoff_reachable.start)
       (simp add: handoff_initial_def engine_new_def get_node_def net_nodes_def Library_new_def)
  have w: "SyncMesh_wait (eng ?h0) = Some ?e1"
    by (simp add: SyncMesh_wait_def engine_new_def)
  have s1: "handoff_step ?R ?h0 ?h1"
    by (rule handoff_step.producer_wait [OF _ w]) simp
  have nid: "NextMeshID ?l = 1" by (simp add: NextMeshID_def Library_new_def)
  have sm: "StoreMesh ?l 1 (Some \<lparr>mesh_id = 1, material = 1\<rparr>)
            = Inr (?l\<lparr>meshes := [None, Some \<lparr>mesh_id = 1, material = 1\<rparr>]\<rparr>)"
    by (simp add: StoreMesh_def store_slot_def resize_def Library_new_def Let_def)
  have p: "SyncMesh_publish (Some \<lparr>mesh_id = 0, material = 1\<rparr>) (eng ?h1) = Inr ?e2"
    by (simp add: SyncMesh_publish_def nid sm engine_new_def)
  have s2: "handoff_step ?R ?h1 ?h2"
    by (rule handoff_step.producer_publish [OF _ _ p]) simp_all
  have s3: "handoff_step ?R ?h2 ?h3"
    by (rule handoff_step.producer_post [where m = "Some \<lparr>mesh_id = 0, material = 1\<rparr>"]) simp_all
  have idle: "OnSyncIdle ?R (eng ?h3) = Inr ?e4"
    by (simp add: OnSyncIdle_def Let_def LookupMesh_def get_node_def SyncMesh_post_def
        Library_new_def engine_new_def set_node_def set_nodes_def)
  have s4: "handoff_step ?R ?h3 ?h4"
    by (rule handoff_step.reactor_idle [OF _ idle]) (simp add: SyncMesh_post_def engine_new_def)
  have r4: "handoff_reachable ?R ?h4"
    by (intro handoff_reachable.step [OF _ s4] handoff_reachable.step [OF _ s3]
        handoff_reachable.step [OF _ s2] handoff_reachable.step [OF _ s1] r0)
  have h4: "?h4 = \<lparr>eng = (engine_new \<lparr>workers = [''a''], width = 640, runaway = 5 :: int\<rparr> 3 False)
              \<lparr>library := Library_new
                 \<lparr>materials := [None, Some \<lparr>emissive = False\<rparr>],
                  meshes := [None, Some \<lparr>mesh_id = 1, material = 1\<rparr>],
                  nodes := [None, Some (SendMesh 1 (NetNode_new\<lparr>state := SYNCING_ASSETS\<rparr>))]\<rparr>,
               sync_idle := True, mesh_read := 0, mesh_synced := 0, current_mesh_id := 1\<rparr>,
             pc = Waiting, script = [None], in_flight = [(1, 1)]\<rparr>"
    by (simp add: mesh_sent_def LookupMesh_def set_node_def set_nodes_def SyncMesh_post_def
        engine_new_def Library_new_def)
  have ok: "\<exists>e'. OnOK 1 (eng ?h4) = Inr e'"
    unfolding h4
    by (simp add: OnOK_def get_node_def StoreMesh_def store_slot_def Library_new_def
        engine_new_def SendMesh_def NetNode_new_def Let_def)
  from mesh_handoff_one_in_flight [OF r4]
  have "length (in_flight ?h4) \<le> 1 \<and> SyncMesh_wait (eng ?h4) = None \<and> mesh_read (eng ?h4) = 0 \<and>
        current_mesh_id (eng ?h4) = 1 \<and>
        (\<forall>e'. OnOK 1 (eng ?h4) = Inr e' \<longrightarrow> mesh_synced e' = 1)"
    unfolding h4 by simp
  with ok have "length (in_flight ?h4) \<le> 1 \<and> SyncMesh_wait (eng ?h4) = None \<and>
        mesh_read (eng ?h4) = 0 \<and> current_mesh_id (eng ?h4) = 1 \<and>
        (\<exists>e'. OnOK 1 (eng ?h4) = Inr e' \<and> mesh_synced e' = 1)"
    by blast
  with r4 show ?thesis unfolding h4 Let_def by simp
qed

end
